theory Spec2Isabelle
  imports Complex_Main "HOL-Library.Multiset" "HOL-Library.Sublist"
begin

section \<open>Python values\<close>

text \<open>
  A Python \<open>str\<close> is a sequence of Unicode code points, so it is modelled as a list of
  natural numbers; \<open>ascii\<close> writes a literal. The price column of the feed carries
  Cyrillic text, which is why bytes would not do.
\<close>

type_synonym pystr = "nat list"

definition ascii :: "string \<Rightarrow> pystr" where
  "ascii s = map of_char s"

text \<open>The exceptions the two modules can raise, as values.\<close>

datatype error =
    ValueError
  | TypeError
  | AttributeError
  | IndexError
  | JSONDecodeError
  | ConnectionError
  | HTTPError nat

text \<open>
  A cell of the spreadsheet as \<open>pandas\<close> hands it over in the record dictionaries: text,
  an integer, or nothing (\<open>watch.get\<close> answers \<open>None\<close> for a missing key). Cells of
  other Python types (floats, dates) are not covered.
\<close>

datatype cell = CStr pystr | CInt int | CNone

subsection \<open>\<open>str(x)\<close>\<close>

fun nat_digits :: "nat \<Rightarrow> pystr" where
  "nat_digits n = (if n < 10 then [48 + n] else nat_digits (n div 10) @ [48 + n mod 10])"

text \<open>
  \<open>str\<close> of text is the text, of an integer its decimal numeral, of \<open>None\<close> the word
  \<open>None\<close>. (CPython refuses to print integers of more than 4300 digits; a spreadsheet
  number is far below that, and the bound is left out here.)
\<close>

fun py_str :: "cell \<Rightarrow> pystr" where
  "py_str (CStr s) = s"
| "py_str (CInt i) = (if i < 0 then 45 # nat_digits (nat (- i)) else nat_digits (nat i))"
| "py_str CNone = ascii ''None''"

subsection \<open>\<open>int(x)\<close>\<close>

text \<open>
  \<open>int\<close> of text (CPython 3.11, Unicode 14.0): surrounding whitespace is dropped, one
  sign is allowed, then come decimal digits of any script, single underscores allowed
  between two digits. More than \<open>int_max_str_digits\<close> digits are refused.
\<close>

definition is_space :: "nat \<Rightarrow> bool" where
  "is_space c \<longleftrightarrow>
     (9 \<le> c \<and> c \<le> 13) \<or> c = 32 \<or> c = 133 \<or> c = 160 \<or> c = 5760 \<or>
     (8192 \<le> c \<and> c \<le> 8202) \<or> c = 8232 \<or> c = 8233 \<or> c = 8239 \<or> c = 8287 \<or> c = 12288"

text \<open>The code point of the digit zero of every script with decimal digits.\<close>

definition digit_zeros :: "nat list" where
  "digit_zeros =
     [48, 1632, 1776, 1984, 2406, 2534, 2662, 2790, 2918, 3046, 3174, 3302, 3430, 3558,
      3664, 3792, 3872, 4160, 4240, 6112, 6160, 6470, 6608, 6784, 6800, 6992, 7088, 7232,
      7248, 42528, 43216, 43264, 43472, 43504, 43600, 44016, 65296, 66720, 68912, 69734,
      69872, 69942, 70096, 70384, 70736, 70864, 71248, 71360, 71472, 71904, 72016, 72784,
      73040, 73120, 92768, 92864, 93008, 120782, 120792, 120802, 120812, 120822, 123200,
      123632, 125264, 130032]"

definition digit_value :: "nat \<Rightarrow> nat option" where
  "digit_value c = map_option (\<lambda>z. c - z) (find (\<lambda>z. z \<le> c \<and> c < z + 10) digit_zeros)"

fun body_digits :: "pystr \<Rightarrow> nat list option" where
  "body_digits [] = None"
| "body_digits [c] = map_option (\<lambda>d. [d]) (digit_value c)"
| "body_digits (c # u # cs) =
     (case digit_value c of
        None \<Rightarrow> None
      | Some d \<Rightarrow> map_option ((#) d) (body_digits (if u = 95 then cs else u # cs)))"

definition strip :: "pystr \<Rightarrow> pystr" where
  "strip s = rev (dropWhile is_space (rev (dropWhile is_space s)))"

definition int_max_str_digits :: nat where
  "int_max_str_digits = 4300"

definition int_of_text :: "pystr \<Rightarrow> error + int" where
  "int_of_text s =
     (let t = strip s;
          negative = (case t of [] \<Rightarrow> False | c # _ \<Rightarrow> c = 45);
          body = (case t of [] \<Rightarrow> [] | c # r \<Rightarrow> if c = 45 \<or> c = 43 then r else t)
      in case body_digits body of
           None \<Rightarrow> Inl ValueError
         | Some ds \<Rightarrow>
             if int_max_str_digits < length ds then Inl ValueError
             else let v = foldl (\<lambda>a d. 10 * a + int d) 0 ds
                  in Inr (if negative then - v else v))"

fun py_int :: "cell \<Rightarrow> error + int" where
  "py_int (CStr s) = int_of_text s"
| "py_int (CInt i) = Inr i"
| "py_int CNone = Inl TypeError"

subsection \<open>\<open>range\<close> and slices\<close>

function py_range :: "int \<Rightarrow> int \<Rightarrow> int \<Rightarrow> int list" where
  "py_range start stop step =
     (if (0 < step \<and> start < stop) \<or> (step < 0 \<and> stop < start)
      then start # py_range (start + step) stop step
      else [])"
  by pat_completeness auto
termination
  by (relation "measure (\<lambda>(start, stop, step).
        nat (if 0 < step then stop - start else start - stop))") auto

text \<open>\<open>xs[i:j]\<close>: negative bounds count from the end, and both are clamped.\<close>

definition py_slice :: "'a list \<Rightarrow> int \<Rightarrow> int \<Rightarrow> 'a list" where
  "py_slice xs i j =
     (let n = int (length xs);
          lo = (if i < 0 then max (i + n) 0 else min i n);
          hi = (if j < 0 then max (j + n) 0 else min j n)
      in take (nat (hi - lo)) (drop (nat lo) xs))"

subsection \<open>\<open>str.split\<close> and \<open>re.sub\<close>\<close>

text \<open>\<open>s.split(sep)\<close> for a separator of one character; the result is never empty.\<close>

fun split_py :: "nat \<Rightarrow> pystr \<Rightarrow> pystr list" where
  "split_py sep [] = [[]]"
| "split_py sep (c # cs) =
     (if c = sep then [] # split_py sep cs
      else case split_py sep cs of
             [] \<Rightarrow> [[c]]
           | p # ps \<Rightarrow> (c # p) # ps)"

text \<open>The subscript \<open>[0]\<close>, which an empty list refuses.\<close>

fun subscript0 :: "'a list \<Rightarrow> error + 'a" where
  "subscript0 [] = Inl IndexError"
| "subscript0 (x # xs) = Inr x"

text \<open>
  \<open>re.sub("[^0-9]", "", s)\<close>: every character outside the ASCII range \<open>0\<close> to \<open>9\<close>
  is deleted.
\<close>

definition re_sub_non_digits :: "pystr \<Rightarrow> pystr" where
  "re_sub_non_digits s = filter (\<lambda>c. 48 \<le> c \<and> c \<le> 57) s"

section \<open>The feed\<close>

text \<open>
  One row of the supplier's sheet, a dictionary whose three Cyrillic keys (code, quantity, price)
  are transliterated here.
\<close>

record watch =
  Kod :: cell
  Kolichestvo :: cell
  Tsena :: cell

section \<open>seller.py\<close>

subsection \<open>\<open>price_conversion\<close> and \<open>divide\<close>\<close>

definition price_conversion :: "pystr \<Rightarrow> error + pystr" where
  "price_conversion price =
     (case subscript0 (split_py 46 price) of
        Inl e \<Rightarrow> Inl e
      | Inr p \<Rightarrow> Inr (re_sub_non_digits p))"

text \<open>
  The generator \<open>divide\<close>, read as the list of what it yields (every caller wraps it in
  \<open>list\<close>). \<open>range\<close> refuses a step of zero.
\<close>

definition divide_list :: "'a list \<Rightarrow> int \<Rightarrow> error + 'a list list" where
  "divide_list lst n =
     (if n = 0 then Inl ValueError
      else Inr (map (\<lambda>i. py_slice lst i (i + n)) (py_range 0 (int (length lst)) n)))"

subsection \<open>\<open>create_stocks\<close> and \<open>create_prices\<close>\<close>

text \<open>
  The quantity of a matched row (lines 193 to 199; the same lines are in market.py at
  173 to 179): the text of the cell is compared with the two tokens, and otherwise the
  cell itself goes to \<open>int\<close>.
\<close>

definition stock_level :: "cell \<Rightarrow> error + int" where
  "stock_level quantity =
     (let count = py_str quantity
      in if count = ascii ''>10'' then Inr 100
         else if count = ascii ''1'' then Inr 0
         else py_int quantity)"

record ozon_stock =
  offer_id :: pystr
  stock :: int

text \<open>
  The first loop of \<open>create_stocks\<close>. The list \<open>offer_ids\<close> is the caller's list object and
  \<open>offer_ids.remove\<close> changes it in place, so the loop hands back its final contents with
  the outcome. \<open>remove\<close> deletes the first occurrence and is only reached when there is
  one.
\<close>

fun seller_stocks_loop ::
  "watch list \<Rightarrow> pystr list \<Rightarrow> ozon_stock list \<Rightarrow> pystr list \<times> (error + ozon_stock list)" where
  "seller_stocks_loop [] offer_ids stocks = (offer_ids, Inr stocks)"
| "seller_stocks_loop (watch # rest) offer_ids stocks =
     (if py_str (Kod watch) \<in> set offer_ids then
        (case stock_level (Kolichestvo watch) of
           Inl e \<Rightarrow> (offer_ids, Inl e)
         | Inr n \<Rightarrow>
             seller_stocks_loop rest (remove1 (py_str (Kod watch)) offer_ids)
               (stocks @ [\<lparr>offer_id = py_str (Kod watch), stock = n\<rparr>]))
      else seller_stocks_loop rest offer_ids stocks)"

definition seller_create_stocks ::
  "watch list \<Rightarrow> pystr list \<Rightarrow> pystr list \<times> (error + ozon_stock list)" where
  "seller_create_stocks watch_remnants offer_ids =
     (case seller_stocks_loop watch_remnants offer_ids [] of
        (offer_ids', Inl e) \<Rightarrow> (offer_ids', Inl e)
      | (offer_ids', Inr stocks) \<Rightarrow>
          (offer_ids', Inr (stocks @ map (\<lambda>i. \<lparr>offer_id = i, stock = 0\<rparr>) offer_ids')))"

record ozon_price =
  auto_action_enabled :: pystr
  currency_code :: pystr
  price_offer_id :: pystr
  old_price :: pystr
  price :: pystr

text \<open>
  The call \<open>price_conversion(watch.get(...))\<close>: a cell that is not text has no \<open>split\<close>.
\<close>

fun price_conversion_cell :: "cell \<Rightarrow> error + pystr" where
  "price_conversion_cell (CStr s) = price_conversion s"
| "price_conversion_cell _ = Inl AttributeError"

fun seller_prices_loop ::
  "watch list \<Rightarrow> pystr list \<Rightarrow> ozon_price list \<Rightarrow> error + ozon_price list" where
  "seller_prices_loop [] offer_ids prices = Inr prices"
| "seller_prices_loop (watch # rest) offer_ids prices =
     (if py_str (Kod watch) \<in> set offer_ids then
        (case price_conversion_cell (Tsena watch) of
           Inl e \<Rightarrow> Inl e
         | Inr p \<Rightarrow>
             seller_prices_loop rest offer_ids
               (prices @ [\<lparr>auto_action_enabled = ascii ''UNKNOWN'',
                           currency_code = ascii ''RUB'',
                           price_offer_id = py_str (Kod watch),
                           old_price = ascii ''0'',
                           price = p\<rparr>]))
      else seller_prices_loop rest offer_ids prices)"

definition seller_create_prices :: "watch list \<Rightarrow> pystr list \<Rightarrow> error + ozon_price list" where
  "seller_create_prices watch_remnants offer_ids = seller_prices_loop watch_remnants offer_ids []"

subsection \<open>The HTTP calls\<close>

text \<open>
  What \<open>requests\<close> gives back: the status code, and what \<open>response.json()\<close> yields,
  an exception or the decoded object, of which only the entry \<open>result\<close> is kept (it may
  be missing). A call that gets no response at all is an exception of the transport.
\<close>

record 'r response =
  status_code :: nat
  json :: "error + 'r option"

text \<open>\<open>raise_for_status\<close> raises for the codes from 400 to 599 and for no other.\<close>

definition raise_for_status :: "'r response \<Rightarrow> error + unit" where
  "raise_for_status response =
     (if 400 \<le> status_code response \<and> status_code response < 600
      then Inl (HTTPError (status_code response))
      else Inr ())"

text \<open>
  An entry of the product list is a dictionary of which \<open>offer_id\<close> alone is read, and a
  result page, when the response has one, carries \<open>items\<close>, \<open>total\<close> and \<open>last_id\<close>.
\<close>

record product =
  product_offer_id :: pystr

record ozon_result =
  items :: "product list"
  total :: int
  last_id :: pystr

text \<open>
  The three requests of seller.py with what they send. The marketplace is a function from
  the request to what comes back; every request made is appended to a log, which is the
  state the functions below pass along.
\<close>

datatype seller_call =
    ProductList pystr pystr pystr
  | ImportPrices "ozon_price list" pystr pystr
  | ImportStocks "ozon_stock list" pystr pystr

type_synonym seller_server = "seller_call \<Rightarrow> error + ozon_result response"

definition seller_get_product_list ::
  "seller_server \<Rightarrow> pystr \<Rightarrow> pystr \<Rightarrow> pystr \<Rightarrow> seller_call list \<Rightarrow>
     seller_call list \<times> (error + ozon_result option)" where
  "seller_get_product_list post lastid client_id seller_token sent =
     (sent @ [ProductList lastid client_id seller_token],
      case post (ProductList lastid client_id seller_token) of
        Inl e \<Rightarrow> Inl e
      | Inr response \<Rightarrow>
          (case raise_for_status response of
             Inl e \<Rightarrow> Inl e
           | Inr _ \<Rightarrow> json response))"

text \<open>
  The \<open>while True\<close> loop of \<open>get_offer_ids\<close>. Nothing bounds it, so it is a partial
  function: \<open>None\<close> is a loop that never ends. A response without \<open>result\<close> makes
  \<open>some_prod\<close> the value \<open>None\<close>, which has no \<open>get\<close>.
\<close>

partial_function (option) seller_pages ::
  "seller_server \<Rightarrow> pystr \<Rightarrow> pystr \<Rightarrow> pystr \<Rightarrow> product list \<Rightarrow> seller_call list \<Rightarrow>
     (seller_call list \<times> (error + product list)) option" where
  "seller_pages post client_id seller_token lastid product_list sent =
     (case seller_get_product_list post lastid client_id seller_token sent of
        (sent', Inl e) \<Rightarrow> Some (sent', Inl e)
      | (sent', Inr None) \<Rightarrow> Some (sent', Inl AttributeError)
      | (sent', Inr (Some some_prod)) \<Rightarrow>
          (if total some_prod = int (length (product_list @ items some_prod))
           then Some (sent', Inr (product_list @ items some_prod))
           else seller_pages post client_id seller_token (last_id some_prod)
                  (product_list @ items some_prod) sent'))"

definition seller_get_offer_ids ::
  "seller_server \<Rightarrow> pystr \<Rightarrow> pystr \<Rightarrow> seller_call list \<Rightarrow>
     (seller_call list \<times> (error + pystr list)) option" where
  "seller_get_offer_ids post client_id seller_token sent =
     (case seller_pages post client_id seller_token [] [] sent of
        None \<Rightarrow> None
      | Some (sent', Inl e) \<Rightarrow> Some (sent', Inl e)
      | Some (sent', Inr product_list) \<Rightarrow> Some (sent', Inr (map product_offer_id product_list)))"



subsection \<open>\<open>upload_prices\<close> and \<open>upload_stocks\<close>\<close>





section \<open>market.py\<close>

subsection \<open>\<open>create_stocks\<close> and \<open>create_prices\<close>\<close>

text \<open>
  The stock entry of the second marketplace; the fields \<open>m_count\<close>, \<open>m_type\<close> and
  \<open>m_items\<close> are the keys \<open>count\<close>, \<open>type\<close> and \<open>items\<close>.
\<close>

record market_item =
  m_count :: int
  m_type :: pystr
  updatedAt :: pystr

record market_sku =
  sku :: pystr
  warehouseId :: pystr
  m_items :: "market_item list"

text \<open>
  \<open>create_stocks\<close> of market.py reads the clock once, before the loop; \<open>date\<close> is that
  reading, already rendered, and is an argument here.
\<close>

fun market_stocks_loop ::
  "watch list \<Rightarrow> pystr list \<Rightarrow> pystr \<Rightarrow> pystr \<Rightarrow> market_sku list \<Rightarrow>
     pystr list \<times> (error + market_sku list)" where
  "market_stocks_loop [] offer_ids warehouse_id date stocks = (offer_ids, Inr stocks)"
| "market_stocks_loop (watch # rest) offer_ids warehouse_id date stocks =
     (if py_str (Kod watch) \<in> set offer_ids then
        (case stock_level (Kolichestvo watch) of
           Inl e \<Rightarrow> (offer_ids, Inl e)
         | Inr n \<Rightarrow>
             market_stocks_loop rest (remove1 (py_str (Kod watch)) offer_ids) warehouse_id date
               (stocks @ [\<lparr>sku = py_str (Kod watch), warehouseId = warehouse_id,
                            m_items = [\<lparr>m_count = n, m_type = ascii ''FIT'',
                                        updatedAt = date\<rparr>]\<rparr>]))
      else market_stocks_loop rest offer_ids warehouse_id date stocks)"

definition market_create_stocks ::
  "watch list \<Rightarrow> pystr list \<Rightarrow> pystr \<Rightarrow> pystr \<Rightarrow> pystr list \<times> (error + market_sku list)" where
  "market_create_stocks watch_remnants offer_ids warehouse_id date =
     (case market_stocks_loop watch_remnants offer_ids warehouse_id date [] of
        (offer_ids', Inl e) \<Rightarrow> (offer_ids', Inl e)
      | (offer_ids', Inr stocks) \<Rightarrow>
          (offer_ids',
           Inr (stocks @
                map (\<lambda>i. \<lparr>sku = i, warehouseId = warehouse_id,
                           m_items = [\<lparr>m_count = 0, m_type = ascii ''FIT'',
                                       updatedAt = date\<rparr>]\<rparr>) offer_ids')))"

text \<open>The price entry: the keys \<open>id\<close>, \<open>price\<close>, \<open>value\<close> and \<open>currencyId\<close>.\<close>

record market_price_value =
  m_value :: int
  currencyId :: pystr

record market_price =
  m_id :: pystr
  m_price :: market_price_value

fun market_prices_loop ::
  "watch list \<Rightarrow> pystr list \<Rightarrow> market_price list \<Rightarrow> error + market_price list" where
  "market_prices_loop [] offer_ids prices = Inr prices"
| "market_prices_loop (watch # rest) offer_ids prices =
     (if py_str (Kod watch) \<in> set offer_ids then
        (case price_conversion_cell (Tsena watch) of
           Inl e \<Rightarrow> Inl e
         | Inr p \<Rightarrow>
             (case int_of_text p of
                Inl e \<Rightarrow> Inl e
              | Inr v \<Rightarrow>
                  market_prices_loop rest offer_ids
                    (prices @ [\<lparr>m_id = py_str (Kod watch),
                                m_price = \<lparr>m_value = v, currencyId = ascii ''RUR''\<rparr>\<rparr>])))
      else market_prices_loop rest offer_ids prices)"

definition market_create_prices :: "watch list \<Rightarrow> pystr list \<Rightarrow> error + market_price list" where
  "market_create_prices watch_remnants offer_ids = market_prices_loop watch_remnants offer_ids []"

subsection \<open>\<open>get_offer_ids\<close>\<close>

text \<open>
  An entry of the listing is read through \<open>offer\<close> and \<open>shopSku\<close>; a result page carries
  \<open>offerMappingEntries\<close> and, under \<open>paging\<close>, \<open>nextPageToken\<close>, which may be missing.
\<close>

record offer =
  shopSku :: pystr

record offer_mapping_entry =
  offer :: offer

record paging =
  nextPageToken :: "pystr option"

record market_result =
  offerMappingEntries :: "offer_mapping_entry list"
  paging :: paging

datatype market_call =
    OfferMappingEntries pystr pystr pystr
  | PutStocks "market_sku list" pystr pystr
  | PostPrices "market_price list" pystr pystr

type_synonym market_server = "market_call \<Rightarrow> error + market_result response"

definition market_get_product_list ::
  "market_server \<Rightarrow> pystr \<Rightarrow> pystr \<Rightarrow> pystr \<Rightarrow> market_call list \<Rightarrow>
     market_call list \<times> (error + market_result option)" where
  "market_get_product_list get page campaign_id access_token sent =
     (sent @ [OfferMappingEntries page campaign_id access_token],
      case get (OfferMappingEntries page campaign_id access_token) of
        Inl e \<Rightarrow> Inl e
      | Inr response \<Rightarrow>
          (case raise_for_status response of
             Inl e \<Rightarrow> Inl e
           | Inr _ \<Rightarrow> json response))"

text \<open>
  The loop of \<open>get_offer_ids\<close>: it ends when the token is \<open>None\<close> or empty (\<open>not page\<close>).
\<close>

partial_function (option) market_pages ::
  "market_server \<Rightarrow> pystr \<Rightarrow> pystr \<Rightarrow> pystr \<Rightarrow> offer_mapping_entry list \<Rightarrow> market_call list \<Rightarrow>
     (market_call list \<times> (error + offer_mapping_entry list)) option" where
  "market_pages get campaign_id market_token page product_list sent =
     (case market_get_product_list get page campaign_id market_token sent of
        (sent', Inl e) \<Rightarrow> Some (sent', Inl e)
      | (sent', Inr None) \<Rightarrow> Some (sent', Inl AttributeError)
      | (sent', Inr (Some some_prod)) \<Rightarrow>
          (case nextPageToken (paging some_prod) of
             None \<Rightarrow> Some (sent', Inr (product_list @ offerMappingEntries some_prod))
           | Some page' \<Rightarrow>
               if page' = [] then Some (sent', Inr (product_list @ offerMappingEntries some_prod))
               else market_pages get campaign_id market_token page'
                      (product_list @ offerMappingEntries some_prod) sent'))"

definition market_get_offer_ids ::
  "market_server \<Rightarrow> pystr \<Rightarrow> pystr \<Rightarrow> market_call list \<Rightarrow>
     (market_call list \<times> (error + pystr list)) option" where
  "market_get_offer_ids get campaign_id market_token sent =
     (case market_pages get campaign_id market_token [] [] sent of
        None \<Rightarrow> None
      | Some (sent', Inl e) \<Rightarrow> Some (sent', Inl e)
      | Some (sent', Inr product_list) \<Rightarrow>
          Some (sent', Inr (map (\<lambda>product. shopSku (offer product)) product_list)))"

section \<open>Notions used in the statements\<close>

text \<open>
  The rows of the feed that the first loop of \<open>create_stocks\<close> matches, in the order of
  the feed, and the identifiers left once every row has taken out the first occurrence of
  its code.
\<close>

fun matched_rows :: "watch list \<Rightarrow> pystr list \<Rightarrow> watch list" where
  "matched_rows [] offer_ids = []"
| "matched_rows (watch # rest) offer_ids =
     (if py_str (Kod watch) \<in> set offer_ids
      then watch # matched_rows rest (remove1 (py_str (Kod watch)) offer_ids)
      else matched_rows rest offer_ids)"

definition leftover_ids :: "watch list \<Rightarrow> pystr list \<Rightarrow> pystr list" where
  "leftover_ids watch_remnants offer_ids = fold (\<lambda>watch. remove1 (py_str (Kod watch))) watch_remnants offer_ids"

text \<open>What one matched row contributes to the stocks, and to the prices of seller.py.\<close>

definition emits :: "watch \<Rightarrow> ozon_stock \<Rightarrow> bool" where
  "emits w u \<longleftrightarrow> offer_id u = py_str (Kod w) \<and> stock_level (Kolichestvo w) = Inr (stock u)"

definition quotes :: "watch \<Rightarrow> ozon_price \<Rightarrow> bool" where
  "quotes w p \<longleftrightarrow>
     (\<exists>s. Tsena w = CStr s \<and>
          p = \<lparr>auto_action_enabled = ascii ''UNKNOWN'', currency_code = ascii ''RUB'',
               price_offer_id = py_str (Kod w), old_price = ascii ''0'',
               price = filter (\<lambda>c. 48 \<le> c \<and> c \<le> 57) (takeWhile (\<lambda>c. c \<noteq> 46) s)\<rparr>)"

text \<open>The entry of market.py that corresponds to an entry of seller.py.\<close>

definition to_sku :: "pystr \<Rightarrow> pystr \<Rightarrow> ozon_stock \<Rightarrow> market_sku" where
  "to_sku warehouse_id date u =
     \<lparr>sku = offer_id u, warehouseId = warehouse_id,
      m_items = [\<lparr>m_count = stock u, m_type = ascii ''FIT'', updatedAt = date\<rparr>]\<rparr>"

text \<open>An entry of market.py with another date written into it.\<close>

definition restamp :: "pystr \<Rightarrow> market_sku \<Rightarrow> market_sku" where
  "restamp date u = u\<lparr>m_items := map (\<lambda>i. i\<lparr>updatedAt := date\<rparr>) (m_items u)\<rparr>"

text \<open>
  A marketplace that behaves well when listing. The catalogue is a list of pages, each
  with the token that asks for it: the first token is empty, no token occurs twice, and
  the request for a page is answered, with a status that \<open>raise_for_status\<close> lets pass,
  by the entries of that page and the token of the next one. For seller.py the last page
  carries an empty \<open>last_id\<close> and every page carries the number of entries of the whole
  catalogue as \<open>total\<close>; for market.py the last page carries \<open>final\<close>, a missing or an
  empty \<open>nextPageToken\<close>.
\<close>

definition answers :: "('c \<Rightarrow> error + 'r response) \<Rightarrow> 'c \<Rightarrow> 'r \<Rightarrow> bool" where
  "answers server call r =
     (case server call of
        Inl e \<Rightarrow> False
      | Inr response \<Rightarrow> raise_for_status response = Inr () \<and> json response = Inr (Some r))"

fun ozon_serves ::
  "seller_server \<Rightarrow> pystr \<Rightarrow> pystr \<Rightarrow> int \<Rightarrow> (pystr \<times> product list) list \<Rightarrow> bool" where
  "ozon_serves post client_id seller_token n [] = True"
| "ozon_serves post client_id seller_token n [(t, ps)] =
     answers post (ProductList t client_id seller_token) \<lparr>items = ps, total = n, last_id = []\<rparr>"
| "ozon_serves post client_id seller_token n ((t, ps) # (t', ps') # rest) =
     (answers post (ProductList t client_id seller_token) \<lparr>items = ps, total = n, last_id = t'\<rparr>
      \<and> ozon_serves post client_id seller_token n ((t', ps') # rest))"

definition well_behaved_ozon ::
  "seller_server \<Rightarrow> pystr \<Rightarrow> pystr \<Rightarrow> (pystr \<times> product list) list \<Rightarrow> bool" where
  "well_behaved_ozon post client_id seller_token pages \<longleftrightarrow>
     pages \<noteq> [] \<and> fst (hd pages) = [] \<and> distinct (map fst pages)
     \<and> ozon_serves post client_id seller_token (int (length (concat (map snd pages)))) pages"

fun market_serves ::
  "market_server \<Rightarrow> pystr \<Rightarrow> pystr \<Rightarrow> pystr option \<Rightarrow>
     (pystr \<times> offer_mapping_entry list) list \<Rightarrow> bool" where
  "market_serves get campaign_id market_token final [] = True"
| "market_serves get campaign_id market_token final [(t, es)] =
     answers get (OfferMappingEntries t campaign_id market_token)
       \<lparr>offerMappingEntries = es, paging = \<lparr>nextPageToken = final\<rparr>\<rparr>"
| "market_serves get campaign_id market_token final ((t, es) # (t', es') # rest) =
     (answers get (OfferMappingEntries t campaign_id market_token)
        \<lparr>offerMappingEntries = es, paging = \<lparr>nextPageToken = Some t'\<rparr>\<rparr>
      \<and> market_serves get campaign_id market_token final ((t', es') # rest))"

definition well_behaved_market ::
  "market_server \<Rightarrow> pystr \<Rightarrow> pystr \<Rightarrow> pystr option \<Rightarrow>
     (pystr \<times> offer_mapping_entry list) list \<Rightarrow> bool" where
  "well_behaved_market get campaign_id market_token final pages \<longleftrightarrow>
     pages \<noteq> [] \<and> fst (hd pages) = [] \<and> distinct (map fst pages)
     \<and> (final = None \<or> final = Some [])
     \<and> market_serves get campaign_id market_token final pages"

text \<open>
  Lists are objects: a variable holds a reference, \<open>offer_ids.remove\<close> changes the object
  behind it, and a copy is a new object with the same contents. A store gives the
  contents behind each reference and the next reference that is free.
\<close>

record store =
  objects :: "nat \<Rightarrow> pystr list"
  next_ref :: nat

text \<open>\<open>list(offer_ids)\<close>: a new object with the contents of the old one.\<close>

definition list_copy :: "nat \<Rightarrow> store \<Rightarrow> nat \<times> store" where
  "list_copy a s =
     (next_ref s, \<lparr>objects = (objects s)(next_ref s := objects s a), next_ref = Suc (next_ref s)\<rparr>)"

text \<open>A call that is given a fresh copy of the list behind a reference.\<close>

definition on_copy :: "(nat \<Rightarrow> store \<Rightarrow> 'r \<times> store) \<Rightarrow> nat \<Rightarrow> store \<Rightarrow> 'r \<times> store" where
  "on_copy call a s = (case list_copy a s of (b, s') \<Rightarrow> call b s')"

text \<open>
  The four functions called on a reference. \<open>create_stocks\<close> leaves in the store what it
  leaves in the list; \<open>create_prices\<close> only reads the list.
\<close>

definition seller_create_stocks_at ::
  "watch list \<Rightarrow> nat \<Rightarrow> store \<Rightarrow> (error + ozon_stock list) \<times> store" where
  "seller_create_stocks_at watch_remnants a s =
     (case seller_create_stocks watch_remnants (objects s a) of
        (offer_ids', r) \<Rightarrow> (r, s\<lparr>objects := (objects s)(a := offer_ids')\<rparr>))"

definition seller_create_prices_at ::
  "watch list \<Rightarrow> nat \<Rightarrow> store \<Rightarrow> (error + ozon_price list) \<times> store" where
  "seller_create_prices_at watch_remnants a s = (seller_create_prices watch_remnants (objects s a), s)"

definition market_create_stocks_at ::
  "watch list \<Rightarrow> pystr \<Rightarrow> pystr \<Rightarrow> nat \<Rightarrow> store \<Rightarrow> (error + market_sku list) \<times> store" where
  "market_create_stocks_at watch_remnants warehouse_id date a s =
     (case market_create_stocks watch_remnants (objects s a) warehouse_id date of
        (offer_ids', r) \<Rightarrow> (r, s\<lparr>objects := (objects s)(a := offer_ids')\<rparr>))"

definition market_create_prices_at ::
  "watch list \<Rightarrow> nat \<Rightarrow> store \<Rightarrow> (error + market_price list) \<times> store" where
  "market_create_prices_at watch_remnants a s = (market_create_prices watch_remnants (objects s a), s)"

section \<open>Price normalisation\<close>

lemma split_py_first: "subscript0 (split_py sep s) = Inr (takeWhile (\<lambda>c. c \<noteq> sep) s)"
  by (induction s) (auto split: list.splits)

lemma price_conversion_eq:
  "price_conversion s = Inr (filter (\<lambda>c. 48 \<le> c \<and> c \<le> 57) (takeWhile (\<lambda>c. c \<noteq> 46) s))"
  by (simp add: price_conversion_def split_py_first re_sub_non_digits_def)

text \<open>
  Claim C5. \<open>price_conversion\<close> turns the text \<open>5'990.00\<close> followed by a space, the three
  Cyrillic letters of the currency (code points 1088, 1091, 1073) and a full stop into
  \<open>5990\<close>, and \<open>1234\<close> into \<open>1234\<close>. A text made of the digits \<open>0\<close> to \<open>9\<close> only, with
  no full stop, comes back unchanged. For every text the result is what is left of the
  part before the first full stop (code point 46) once every character other than
  \<open>0\<close> to \<open>9\<close> is deleted; indexing the split never fails.
\<close>

theorem price_conversion_spec:
  "price_conversion (ascii ''5'990.00 '' @ [1088, 1091, 1073] @ ascii ''.'') = Inr (ascii ''5990'')
   \<and> price_conversion (ascii ''1234'') = Inr (ascii ''1234'')
   \<and> ((\<forall>c \<in> set s. 48 \<le> c \<and> c \<le> 57) \<and> 46 \<notin> set s \<longrightarrow> price_conversion s = Inr s)
   \<and> price_conversion s = Inr (filter (\<lambda>c. 48 \<le> c \<and> c \<le> 57) (takeWhile (\<lambda>c. c \<noteq> 46) s))"
proof (intro conjI impI)
  show "price_conversion (ascii ''5'990.00 '' @ [1088, 1091, 1073] @ ascii ''.'') = Inr (ascii ''5990'')"
    by (simp add: price_conversion_eq ascii_def)
  show "price_conversion (ascii ''1234'') = Inr (ascii ''1234'')"
    by (simp add: price_conversion_eq ascii_def)
  show "price_conversion s = Inr (filter (\<lambda>c. 48 \<le> c \<and> c \<le> 57) (takeWhile (\<lambda>c. c \<noteq> 46) s))"
    by (rule price_conversion_eq)
next
  assume a: "(\<forall>c \<in> set s. 48 \<le> c \<and> c \<le> 57) \<and> 46 \<notin> set s"
  then have "takeWhile (\<lambda>c. c \<noteq> 46) s = s"
    by auto
  moreover from a have "filter (\<lambda>c. 48 \<le> c \<and> c \<le> 57) s = s"
    by (auto intro: filter_True)
  ultimately show "price_conversion s = Inr s"
    by (simp only: price_conversion_eq)
qed

theorem price_conversion_spec_witness:
  "list_all (\<lambda>c. 48 \<le> c \<and> c \<le> 57) (ascii ''2024'') \<and> 46 \<notin> set (ascii ''2024'')
   \<and> price_conversion (ascii ''2024'') = Inr (ascii ''2024'')"
  using price_conversion_spec [of "ascii ''2024''"] by (simp add: ascii_def)

section \<open>Batches\<close>

declare py_range.simps [simp del]

lemma py_range_step: "0 < n \<Longrightarrow> k < l \<Longrightarrow> py_range k l n = k # py_range (k + n) l n"
  by (subst py_range.simps) simp

lemma py_range_done: "0 < n \<Longrightarrow> \<not> k < l \<Longrightarrow> py_range k l n = []"
  by (subst py_range.simps) simp

lemma py_slice_chunk:
  "0 \<le> k \<Longrightarrow> 0 < n \<Longrightarrow> py_slice xs k (k + n) = take (nat n) (drop (nat k) xs)"
  by (auto simp: py_slice_def Let_def min_def)

lemma chunks_concat:
  "0 < n \<Longrightarrow> 0 \<le> k \<Longrightarrow>
   concat (map (\<lambda>i. py_slice xs i (i + n)) (py_range k (int (length xs)) n)) = drop (nat k) xs"
proof (induction k "int (length xs)" n rule: py_range.induct)
  case (1 start step)
  show ?case
  proof (cases "start < int (length xs)")
    case True
    have "take (nat step) (drop (nat start) xs) @ drop (nat (start + step)) xs = drop (nat start) xs"
    proof -
      have "nat (start + step) = nat step + nat start"
        using 1(2,3) by (simp add: nat_add_distrib)
      then have "drop (nat (start + step)) xs = drop (nat step) (drop (nat start) xs)"
        by simp
      then show ?thesis
        by (simp only: append_take_drop_id)
    qed
    with True 1 show ?thesis
      by (simp add: py_range_step py_slice_chunk)
  next
    case False
    with 1 show ?thesis by (simp add: py_range_done)
  qed
qed

lemma chunks_count:
  "0 < n \<Longrightarrow> k \<le> l \<Longrightarrow> int (length (py_range k l n)) = (l - k + n - 1) div n"
proof (induction k l n rule: py_range.induct)
  case (1 start stop step)
  show ?case
  proof (cases "start < stop")
    case True
    show ?thesis
    proof (cases "start + step \<le> stop")
      case le: True
      have "(stop - start + step - 1) div step = (stop - (start + step) + step - 1) div step + 1"
      proof -
        have e: "stop - start + step - 1 = (stop - (start + step) + step - 1) + step"
          by simp
        have nz: "step \<noteq> 0"
          using 1(2) by simp
        show ?thesis
          by (subst e) (rule div_add_self2 [OF nz])
      qed
      with True le 1 show ?thesis
        by (simp add: py_range_step)
    next
      case gt: False
      then have "py_range (start + step) stop step = []"
        using 1(2) by (simp add: py_range_done)
      moreover have "(stop - start + step - 1) div step = 1"
      proof -
        have e: "stop - start + step - 1 = (stop - start - 1) + step"
          by simp
        have nz: "step \<noteq> 0"
          using 1(2) by simp
        have "(stop - start - 1) div step = 0"
          using gt True by simp
        then show ?thesis
          by (subst e) (simp only: div_add_self2 [OF nz])
      qed
      ultimately show ?thesis using True 1(2)
        by (simp add: py_range_step)
    qed
  next
    case False
    with 1 have "stop = start" by simp
    with 1 show ?thesis by (simp add: py_range_done)
  qed
qed

lemma py_range_Nil_iff: "0 < n \<Longrightarrow> py_range k l n = [] \<longleftrightarrow> \<not> k < l"
  by (subst py_range.simps) simp

lemma py_range_bounds:
  "0 < n \<Longrightarrow> i \<in> set (py_range k l n) \<Longrightarrow> k \<le> i \<and> i < l"
proof (induction k l n rule: py_range.induct)
  case (1 start stop step)
  show ?case
  proof (cases "start < stop")
    case True
    have e: "py_range start stop step = start # py_range (start + step) stop step"
      using 1(2) True by (rule py_range_step)
    from 1(3) have "i = start \<or> i \<in> set (py_range (start + step) stop step)"
      unfolding e by simp
    then show ?thesis
    proof
      assume "i = start"
      with True show ?thesis by simp
    next
      assume "i \<in> set (py_range (start + step) stop step)"
      with 1(1) 1(2) True have "start + step \<le> i \<and> i < stop"
        by blast
      with 1(2) show ?thesis by simp
    qed
  next
    case False
    with 1(2) have "py_range start stop step = []"
      by (rule py_range_done)
    with 1(3) show ?thesis by simp
  qed
qed

lemma py_range_butlast_bounds:
  "0 < n \<Longrightarrow> i \<in> set (butlast (py_range k l n)) \<Longrightarrow> k \<le> i \<and> i + n < l"
proof (induction k l n rule: py_range.induct)
  case (1 start stop step)
  show ?case
  proof (cases "start < stop")
    case True
    have e: "py_range start stop step = start # py_range (start + step) stop step"
      using 1(2) True by (rule py_range_step)
    show ?thesis
    proof (cases "start + step < stop")
      case more: True
      then have ne: "py_range (start + step) stop step \<noteq> []"
        using 1(2) by (simp only: py_range_Nil_iff) simp
      from 1(3) have "i = start \<or> i \<in> set (butlast (py_range (start + step) stop step))"
        unfolding e using ne by simp
      then show ?thesis
      proof
        assume "i = start"
        with more show ?thesis by simp
      next
        assume "i \<in> set (butlast (py_range (start + step) stop step))"
        with 1(1) 1(2) True have "start + step \<le> i \<and> i + step < stop"
          by blast
        with 1(2) show ?thesis by simp
      qed
    next
      case False
      with 1(2) have "py_range (start + step) stop step = []"
        by (rule py_range_done)
      with 1(3) show ?thesis
        unfolding e by simp
    qed
  next
    case False
    with 1(2) have "py_range start stop step = []"
      by (rule py_range_done)
    with 1(3) show ?thesis by simp
  qed
qed

lemma length_py_slice_chunk:
  "0 \<le> k \<Longrightarrow> 0 < n \<Longrightarrow>
   int (length (py_slice xs k (k + n))) = min n (max 0 (int (length xs) - k))"
  by (auto simp: py_slice_chunk)

lemma ceiling_div:
  fixes a n :: int
  assumes "0 < n"
  shows "\<lceil>real_of_int a / real_of_int n\<rceil> = (a + n - 1) div n"
proof -
  have nz: "n \<noteq> 0" using assms by simp
  have split: "a + n - 1 = (a mod n + n - 1) + (a div n) * n"
    by (simp add: algebra_simps)
  have "(a + n - 1) div n = (a mod n + n - 1) div n + a div n"
    by (subst split) (simp only: div_mult_self1 [OF nz] div_mult_self2[OF nz] div_mult_self3[OF nz] div_mult_self4[OF nz])
  moreover have "(a mod n + n - 1) div n = (if a mod n = 0 then 0 else 1)"
  proof (cases "a mod n = 0")
    case True
    then show ?thesis using assms by simp
  next
    case False
    have "0 \<le> a mod n" "a mod n < n" using assms by simp_all
    with False have r: "0 \<le> a mod n - 1" "a mod n - 1 < n" by simp_all
    have "a mod n + n - 1 = (a mod n - 1) + n" by simp
    then have "(a mod n + n - 1) div n = (a mod n - 1) div n + 1"
      by (simp only: div_add_self2 [OF nz])
    with r False show ?thesis by simp
  qed
  moreover have "\<lceil>real_of_int a / real_of_int n\<rceil> = - ((- a) div n)"
    by (rule ceiling_divide_eq_div)
  moreover have "(- a) div n = (if a mod n = 0 then - (a div n) else - (a div n) - 1)"
    using nz by (rule zdiv_zminus1_eq_if)
  ultimately show ?thesis by simp
qed

text \<open>
  Claim C6. For every list \<open>U\<close> and every positive \<open>n\<close>, \<open>divide\<close> yields a list of
  chunks without raising; there are \<open>ceil(len(U) / n)\<close> of them; put end to end in the
  order they are yielded they give \<open>U\<close> back; every chunk but the last has exactly \<open>n\<close>
  elements; and no chunk is empty or longer than \<open>n\<close>.
\<close>

theorem divide_partition:
  assumes "0 < n"
  shows "\<exists>chunks. divide_list U n = Inr chunks
           \<and> int (length chunks) = \<lceil>real (length U) / real_of_int n\<rceil>
           \<and> concat chunks = U
           \<and> (\<forall>c \<in> set (butlast chunks). int (length c) = n)
           \<and> (\<forall>c \<in> set chunks. c \<noteq> [] \<and> int (length c) \<le> n)"
proof -
  define starts where "starts = py_range 0 (int (length U)) n"
  define chunks where "chunks = map (\<lambda>i. py_slice U i (i + n)) starts"
  have d: "divide_list U n = Inr chunks"
    using assms by (simp add: divide_list_def chunks_def starts_def)
  have "int (length chunks) = (int (length U) + n - 1) div n"
    using chunks_count [OF assms, of 0 "int (length U)"] by (simp add: chunks_def starts_def)
  then have c: "int (length chunks) = \<lceil>real (length U) / real_of_int n\<rceil>"
    using ceiling_div [OF assms, of "int (length U)"] by simp
  have cc: "concat chunks = U"
    using chunks_concat [OF assms, of 0 U] by (simp add: chunks_def starts_def)
  have full: "\<forall>c \<in> set (butlast chunks). int (length c) = n"
  proof
    fix c assume "c \<in> set (butlast chunks)"
    moreover have "butlast chunks = map (\<lambda>i. py_slice U i (i + n)) (butlast starts)"
      by (simp add: chunks_def map_butlast)
    ultimately obtain i where i: "i \<in> set (butlast starts)" and c: "c = py_slice U i (i + n)"
      by auto
    from py_range_butlast_bounds [OF assms i [unfolded starts_def]]
    have "0 \<le> i" "i + n < int (length U)" by simp_all
    then show "int (length c) = n"
      using assms by (simp add: c length_py_slice_chunk)
  qed
  have some: "\<forall>c \<in> set chunks. c \<noteq> [] \<and> int (length c) \<le> n"
  proof
    fix c assume "c \<in> set chunks"
    then obtain i where i: "i \<in> set starts" and c: "c = py_slice U i (i + n)"
      by (auto simp: chunks_def)
    from py_range_bounds [OF assms i [unfolded starts_def]]
    have b: "0 \<le> i" "i < int (length U)" by simp_all
    then have "int (length c) = min n (int (length U) - i)"
      using assms by (simp add: c length_py_slice_chunk)
    with b assms have "0 < int (length c) \<and> int (length c) \<le> n"
      by simp
    then show "c \<noteq> [] \<and> int (length c) \<le> n"
      by auto
  qed
  from d c cc full some show ?thesis by blast
qed

theorem divide_partition_witness:
  "(0::int) < 2 \<and> divide_list [10, 20, 30, 40, 50 :: nat] 2 = Inr [[10, 20], [30, 40], [50]]
   \<and> int (length [[10, 20], [30, 40], [50 :: nat]]) = \<lceil>real (length [10, 20, 30, 40, 50 :: nat]) / real_of_int 2\<rceil>"
proof -
  have p: "(0::int) < 2"
    by simp
  have r: "py_range 0 5 2 = [0, 2, 4]"
    by (simp add: py_range_step py_range_done)
  have e: "divide_list [10, 20, 30, 40, 50 :: nat] 2 = Inr [[10, 20], [30, 40], [50]]"
    by (simp add: divide_list_def r py_slice_def)
  from divide_partition [OF p, of "[10, 20, 30, 40, 50 :: nat]"]
  obtain chunks where c: "divide_list [10, 20, 30, 40, 50 :: nat] 2 = Inr chunks"
    and l: "int (length chunks) = \<lceil>real (length [10, 20, 30, 40, 50 :: nat]) / real_of_int 2\<rceil>"
    by blast
  from c e have "chunks = [[10, 20], [30, 40], [50]]"
    by simp
  with l have "int (length [[10, 20], [30, 40], [50 :: nat]]) = \<lceil>real (length [10, 20, 30, 40, 50 :: nat]) / real_of_int 2\<rceil>"
    by (simp only:)
  with p e show ?thesis
    by (intro conjI)
qed

section \<open>Reconciliation\<close>

lemma leftover_ids_Nil [simp]: "leftover_ids [] I = I"
  by (simp add: leftover_ids_def)

lemma leftover_ids_Cons [simp]:
  "leftover_ids (w # F) I = leftover_ids F (remove1 (py_str (Kod w)) I)"
  by (simp add: leftover_ids_def)

lemma subseq_matched_rows: "subseq (matched_rows F I) F"
  by (induction F arbitrary: I) auto

lemma subseq_remove1: "subseq (remove1 x xs) xs"
  by (induction xs) auto

lemma subseq_leftover_ids: "subseq (leftover_ids F I) I"
proof (induction F arbitrary: I)
  case Nil
  show ?case by simp
next
  case (Cons w F)
  have "subseq (leftover_ids F (remove1 (py_str (Kod w)) I)) (remove1 (py_str (Kod w)) I)"
    by (rule Cons.IH)
  then show ?case
    using subseq_remove1 [of "py_str (Kod w)" I] by (simp add: subseq_order.order_trans)
qed

lemma mset_matched_leftover:
  "mset (map (\<lambda>w. py_str (Kod w)) (matched_rows F I)) + mset (leftover_ids F I) = mset I"
proof (induction F arbitrary: I)
  case Nil
  show ?case by simp
next
  case (Cons w F)
  show ?case
  proof (cases "py_str (Kod w) \<in> set I")
    case True
    then show ?thesis
      using Cons.IH [of "remove1 (py_str (Kod w)) I"] by simp
  next
    case False
    then show ?thesis
      using Cons.IH [of I] by (simp add: remove1_idem)
  qed
qed

lemma set_matched_rows:
  "set (map (\<lambda>w. py_str (Kod w)) (matched_rows F I)) = set I \<inter> set (map (\<lambda>w. py_str (Kod w)) F)"
proof (induction F arbitrary: I)
  case Nil
  show ?case by simp
next
  case (Cons w F)
  show ?case
  proof (cases "py_str (Kod w) \<in> set I")
    case True
    have "set (remove1 (py_str (Kod w)) I) \<subseteq> set I"
      by (rule set_remove1_subset)
    moreover have "set I \<subseteq> insert (py_str (Kod w)) (set (remove1 (py_str (Kod w)) I))"
    proof
      fix x assume "x \<in> set I"
      then show "x \<in> insert (py_str (Kod w)) (set (remove1 (py_str (Kod w)) I))"
        by (cases "x = py_str (Kod w)") simp_all
    qed
    ultimately show ?thesis
      using True Cons.IH [of "remove1 (py_str (Kod w)) I"] by auto
  next
    case False
    then show ?thesis
      using Cons.IH [of I] by auto
  qed
qed

lemma seller_stocks_loop_returns:
  "seller_stocks_loop F I acc = (I', Inr out) \<Longrightarrow>
   I' = leftover_ids F I \<and> (\<exists>new. out = acc @ new \<and> list_all2 emits (matched_rows F I) new)"
proof (induction F arbitrary: I acc)
  case Nil
  then show ?case by simp
next
  case (Cons w F)
  show ?case
  proof (cases "py_str (Kod w) \<in> set I")
    case True
    from Cons.prems True obtain n where n: "stock_level (Kolichestvo w) = Inr n"
      by (cases "stock_level (Kolichestvo w)") auto
    let ?u = "\<lparr>offer_id = py_str (Kod w), stock = n\<rparr>"
    from Cons.prems True n
    have "seller_stocks_loop F (remove1 (py_str (Kod w)) I) (acc @ [?u]) = (I', Inr out)"
      by simp
    from Cons.IH [OF this] obtain new where
      i: "I' = leftover_ids F (remove1 (py_str (Kod w)) I)" and
      o: "out = (acc @ [?u]) @ new" and
      l: "list_all2 emits (matched_rows F (remove1 (py_str (Kod w)) I)) new"
      by blast
    have "emits w ?u"
      using n by (simp add: emits_def)
    with l have "list_all2 emits (matched_rows (w # F) I) (?u # new)"
      using True by simp
    with i o show ?thesis by auto
  next
    case False
    with Cons.prems have "seller_stocks_loop F I acc = (I', Inr out)"
      by simp
    from Cons.IH [OF this] False show ?thesis
      by (simp add: remove1_idem)
  qed
qed

lemma seller_stocks_loop_total:
  "\<forall>w \<in> set (matched_rows F I). \<exists>n. stock_level (Kolichestvo w) = Inr n \<Longrightarrow>
   \<exists>out. seller_stocks_loop F I acc = (leftover_ids F I, Inr out)"
proof (induction F arbitrary: I acc)
  case Nil
  show ?case by simp
next
  case (Cons w F)
  show ?case
  proof (cases "py_str (Kod w) \<in> set I")
    case True
    with Cons.prems obtain n where n: "stock_level (Kolichestvo w) = Inr n"
      by auto
    from Cons.prems True
    have "\<forall>w \<in> set (matched_rows F (remove1 (py_str (Kod w)) I)). \<exists>n. stock_level (Kolichestvo w) = Inr n"
      by simp
    from Cons.IH [OF this] True n show ?thesis
      by simp
  next
    case False
    with Cons.prems have "\<forall>w \<in> set (matched_rows F I). \<exists>n. stock_level (Kolichestvo w) = Inr n"
      by simp
    from Cons.IH [OF this] False show ?thesis
      by (simp add: remove1_idem)
  qed
qed

lemma matched_rows_subset: "w \<in> set (matched_rows F I) \<Longrightarrow> w \<in> set F \<and> py_str (Kod w) \<in> set I"
proof (induction F arbitrary: I)
  case Nil
  then show ?case by simp
next
  case (Cons x F)
  show ?case
  proof (cases "py_str (Kod x) \<in> set I")
    case True
    with Cons.prems have "w = x \<or> w \<in> set (matched_rows F (remove1 (py_str (Kod x)) I))"
      by simp
    then show ?thesis
    proof
      assume "w = x" with True show ?thesis by simp
    next
      assume "w \<in> set (matched_rows F (remove1 (py_str (Kod x)) I))"
      from Cons.IH [OF this] show ?thesis
        using set_remove1_subset [of "py_str (Kod x)" I] by auto
    qed
  next
    case False
    with Cons.prems have "w \<in> set (matched_rows F I)" by simp
    from Cons.IH [OF this] show ?thesis by simp
  qed
qed

lemma price_conversion_cell_Inr:
  "price_conversion_cell c = Inr p \<Longrightarrow>
   \<exists>s. c = CStr s \<and> p = filter (\<lambda>c. 48 \<le> c \<and> c \<le> 57) (takeWhile (\<lambda>c. c \<noteq> 46) s)"
  by (cases c) (simp_all add: price_conversion_eq)

lemma seller_prices_loop_returns:
  "seller_prices_loop F I acc = Inr ps \<Longrightarrow>
   \<exists>new. ps = acc @ new \<and> list_all2 quotes (filter (\<lambda>w. py_str (Kod w) \<in> set I) F) new"
proof (induction F arbitrary: acc)
  case Nil
  then show ?case by simp
next
  case (Cons w F)
  show ?case
  proof (cases "py_str (Kod w) \<in> set I")
    case True
    from Cons.prems True obtain p where p: "price_conversion_cell (Tsena w) = Inr p"
      by (cases "price_conversion_cell (Tsena w)") auto
    let ?u = "\<lparr>auto_action_enabled = ascii ''UNKNOWN'', currency_code = ascii ''RUB'',
               price_offer_id = py_str (Kod w), old_price = ascii ''0'', price = p\<rparr>"
    from Cons.prems True p have "seller_prices_loop F I (acc @ [?u]) = Inr ps"
      by simp
    from Cons.IH [OF this] obtain new where
      o: "ps = (acc @ [?u]) @ new" and
      l: "list_all2 quotes (filter (\<lambda>w. py_str (Kod w) \<in> set I) F) new"
      by blast
    from price_conversion_cell_Inr [OF p] have "quotes w ?u"
      by (auto simp: quotes_def)
    with l True have "list_all2 quotes (filter (\<lambda>w. py_str (Kod w) \<in> set I) (w # F)) (?u # new)"
      by simp
    with o show ?thesis by auto
  next
    case False
    with Cons.prems have "seller_prices_loop F I acc = Inr ps"
      by simp
    from Cons.IH [OF this] False show ?thesis
      by simp
  qed
qed

lemma seller_prices_loop_total:
  "\<forall>w \<in> set F. py_str (Kod w) \<in> set I \<longrightarrow> (\<exists>s. Tsena w = CStr s) \<Longrightarrow>
   \<exists>ps. seller_prices_loop F I acc = Inr ps"
proof (induction F arbitrary: acc)
  case Nil
  show ?case by simp
next
  case (Cons w F)
  from Cons.prems have rest: "\<forall>w \<in> set F. py_str (Kod w) \<in> set I \<longrightarrow> (\<exists>s. Tsena w = CStr s)"
    by simp
  show ?case
  proof (cases "py_str (Kod w) \<in> set I")
    case True
    with Cons.prems obtain s where "Tsena w = CStr s"
      by auto
    then have "price_conversion_cell (Tsena w) =
               Inr (filter (\<lambda>c. 48 \<le> c \<and> c \<le> 57) (takeWhile (\<lambda>c. c \<noteq> 46) s))"
      by (simp add: price_conversion_eq)
    with True Cons.IH [OF rest] show ?thesis
      by simp
  next
    case False
    with Cons.IH [OF rest] show ?thesis
      by simp
  qed
qed

lemma quotes_offer_id: "list_all2 quotes ws ps \<Longrightarrow> map price_offer_id ps = map (\<lambda>w. py_str (Kod w)) ws"
  by (induction rule: list_all2_induct) (auto simp: quotes_def)

lemma emits_offer_id: "list_all2 emits ws us \<Longrightarrow> map offer_id us = map (\<lambda>w. py_str (Kod w)) ws"
  by (induction rule: list_all2_induct) (auto simp: emits_def)

lemma market_stocks_loop_sim:
  "market_stocks_loop F I wh d (map (to_sku wh d) acc) =
   (case seller_stocks_loop F I acc of (I', r) \<Rightarrow> (I', map_sum (\<lambda>e. e) (map (to_sku wh d)) r))"
proof (induction F arbitrary: I acc)
  case Nil
  show ?case by simp
next
  case (Cons w F)
  show ?case
  proof (cases "py_str (Kod w) \<in> set I")
    case True
    show ?thesis
    proof (cases "stock_level (Kolichestvo w)")
      case (Inl e)
      with True show ?thesis by simp
    next
      case (Inr n)
      have "market_stocks_loop F (remove1 (py_str (Kod w)) I) wh d
              (map (to_sku wh d) (acc @ [\<lparr>offer_id = py_str (Kod w), stock = n\<rparr>])) =
            (case seller_stocks_loop F (remove1 (py_str (Kod w)) I)
                    (acc @ [\<lparr>offer_id = py_str (Kod w), stock = n\<rparr>]) of
               (I', r) \<Rightarrow> (I', map_sum (\<lambda>e. e) (map (to_sku wh d)) r))"
        by (rule Cons.IH)
      moreover have "map (to_sku wh d) (acc @ [\<lparr>offer_id = py_str (Kod w), stock = n\<rparr>]) =
                     map (to_sku wh d) acc @
                       [\<lparr>sku = py_str (Kod w), warehouseId = wh,
                         m_items = [\<lparr>m_count = n, m_type = ascii ''FIT'', updatedAt = d\<rparr>]\<rparr>]"
        by (simp add: to_sku_def)
      ultimately show ?thesis
        using True Inr by simp
    qed
  next
    case False
    with Cons.IH [of I acc] show ?thesis by simp
  qed
qed

lemma market_create_stocks_sim:
  "market_create_stocks F I wh d =
   (case seller_create_stocks F I of (I', r) \<Rightarrow> (I', map_sum (\<lambda>e. e) (map (to_sku wh d)) r))"
proof -
  obtain I' r where s: "seller_stocks_loop F I [] = (I', r)"
    by (cases "seller_stocks_loop F I []") blast
  with market_stocks_loop_sim [of F I wh d "[]"]
  have m: "market_stocks_loop F I wh d [] = (I', map_sum (\<lambda>e. e) (map (to_sku wh d)) r)"
    by simp
  show ?thesis
  proof (cases r)
    case (Inl e)
    with s m show ?thesis
      by (simp add: market_create_stocks_def seller_create_stocks_def)
  next
    case (Inr stocks)
    have "map (\<lambda>i. \<lparr>sku = i, warehouseId = wh,
                    m_items = [\<lparr>m_count = 0, m_type = ascii ''FIT'', updatedAt = d\<rparr>]\<rparr>) I' =
          map (to_sku wh d) (map (\<lambda>i. \<lparr>offer_id = i, stock = 0\<rparr>) I')"
      by (simp add: to_sku_def)
    with Inr s m show ?thesis
      by (simp add: market_create_stocks_def seller_create_stocks_def)
  qed
qed

lemma seller_create_stocks_returns:
  assumes "seller_create_stocks F I = (I', Inr stocks)"
  shows "I' = leftover_ids F I"
    and "\<exists>new. list_all2 emits (matched_rows F I) new \<and>
               stocks = new @ map (\<lambda>i. \<lparr>offer_id = i, stock = 0\<rparr>) I'"
proof -
  obtain J r where l: "seller_stocks_loop F I [] = (J, r)"
    by (cases "seller_stocks_loop F I []") blast
  with assms obtain out where r: "r = Inr out" and j: "J = I'"
    and s: "stocks = out @ map (\<lambda>i. \<lparr>offer_id = i, stock = 0\<rparr>) I'"
    by (cases r) (auto simp: seller_create_stocks_def)
  from seller_stocks_loop_returns [of F I "[]" I' out] l r j
  have "I' = leftover_ids F I" and "list_all2 emits (matched_rows F I) out"
    by simp_all
  with s show "I' = leftover_ids F I"
    and "\<exists>new. list_all2 emits (matched_rows F I) new \<and>
               stocks = new @ map (\<lambda>i. \<lparr>offer_id = i, stock = 0\<rparr>) I'"
    by blast+
qed

lemma seller_create_stocks_total:
  assumes "\<forall>w \<in> set F. py_str (Kod w) \<in> set I \<longrightarrow> (\<exists>n. stock_level (Kolichestvo w) = Inr n)"
  shows "\<exists>stocks. seller_create_stocks F I = (leftover_ids F I, Inr stocks)"
proof -
  from assms have "\<forall>w \<in> set (matched_rows F I). \<exists>n. stock_level (Kolichestvo w) = Inr n"
    using matched_rows_subset by blast
  from seller_stocks_loop_total [OF this, of "[]"] show ?thesis
    by (auto simp: seller_create_stocks_def)
qed

lemma seller_stocks_ids:
  assumes "seller_create_stocks F I = (I', Inr stocks)"
  shows "map offer_id stocks = map (\<lambda>w. py_str (Kod w)) (matched_rows F I) @ leftover_ids F I"
proof -
  from seller_create_stocks_returns [OF assms] obtain new where
    i: "I' = leftover_ids F I" and l: "list_all2 emits (matched_rows F I) new" and
    s: "stocks = new @ map (\<lambda>i. \<lparr>offer_id = i, stock = 0\<rparr>) I'"
    by blast
  have "map offer_id (map (\<lambda>i. \<lparr>offer_id = i, stock = 0\<rparr>) I') = I'"
    by (induction I') simp_all
  with emits_offer_id [OF l] i s show ?thesis
    by simp
qed

lemma seller_prices_ids:
  assumes "seller_create_prices F I = Inr prices"
  shows "map price_offer_id prices = filter (\<lambda>c. c \<in> set I) (map (\<lambda>w. py_str (Kod w)) F)"
proof -
  from assms seller_prices_loop_returns [of F I "[]" prices]
  have "list_all2 quotes (filter (\<lambda>w. py_str (Kod w) \<in> set I) F) prices"
    by (simp add: seller_create_prices_def)
  from quotes_offer_id [OF this] show ?thesis
    by (simp add: filter_map comp_def)
qed

lemma map_zero_offer_id: "map offer_id (map (\<lambda>i. \<lparr>offer_id = i, stock = 0\<rparr>) J) = J"
  by (induction J) simp_all

lemma count_list_filter: "count_list (filter P xs) c = (if P c then count_list xs c else 0)"
  by (induction xs) auto

lemma count_list_pos: "x \<in> set xs \<Longrightarrow> 0 < count_list xs x"
  by (induction xs) auto

lemma seller_stocks_mset:
  assumes "seller_create_stocks F I = (I', Inr stocks)"
  shows "mset (map offer_id stocks) = mset I"
proof -
  have "mset (map offer_id stocks) =
        mset (map (\<lambda>w. py_str (Kod w)) (matched_rows F I)) + mset (leftover_ids F I)"
    by (simp add: seller_stocks_ids [OF assms])
  then show ?thesis
    by (simp only: mset_matched_leftover)
qed

lemma leftover_disjoint:
  assumes "distinct I"
  shows "set (leftover_ids F I) \<inter> set (map (\<lambda>w. py_str (Kod w)) F) = {}"
proof -
  let ?K = "map (\<lambda>w. py_str (Kod w)) (matched_rows F I)"
  have "mset (?K @ leftover_ids F I) = mset I"
    using mset_matched_leftover [of F I] by simp
  with assms have "distinct (?K @ leftover_ids F I)"
    by (metis mset_eq_imp_distinct_iff)
  then have d: "set ?K \<inter> set (leftover_ids F I) = {}"
    by simp
  have "set_mset (mset ?K + mset (leftover_ids F I)) = set_mset (mset I)"
    by (simp only: mset_matched_leftover)
  then have "set (leftover_ids F I) \<subseteq> set I"
    by auto
  with d set_matched_rows [of F I] show ?thesis
    by blast
qed

lemma leftover_subset: "set (leftover_ids F I) \<subseteq> set I"
proof -
  have "set_mset (mset (map (\<lambda>w. py_str (Kod w)) (matched_rows F I)) + mset (leftover_ids F I)) =
        set_mset (mset I)"
    by (simp only: mset_matched_leftover)
  then show ?thesis
    by auto
qed

lemma scenario_stocks:
  "seller_create_stocks
     [\<lparr>Kod = CStr (ascii ''A1''), Kolichestvo = CStr (ascii ''>10''), Tsena = CStr (ascii ''100.00'')\<rparr>,
      \<lparr>Kod = CStr (ascii ''A2''), Kolichestvo = CStr (ascii ''1''), Tsena = CStr (ascii ''50.00'')\<rparr>]
     [ascii ''A1'', ascii ''A2'', ascii ''A3''] =
   ([ascii ''A3''],
    Inr [\<lparr>offer_id = ascii ''A1'', stock = 100\<rparr>, \<lparr>offer_id = ascii ''A2'', stock = 0\<rparr>,
         \<lparr>offer_id = ascii ''A3'', stock = 0\<rparr>])"
  by (simp add: seller_create_stocks_def stock_level_def ascii_def)

lemma scenario_prices:
  "seller_create_prices
     [\<lparr>Kod = CStr (ascii ''A1''), Kolichestvo = CStr (ascii ''>10''), Tsena = CStr (ascii ''100.00'')\<rparr>,
      \<lparr>Kod = CStr (ascii ''A2''), Kolichestvo = CStr (ascii ''1''), Tsena = CStr (ascii ''50.00'')\<rparr>]
     [ascii ''A1'', ascii ''A2'', ascii ''A3''] =
   Inr [\<lparr>auto_action_enabled = ascii ''UNKNOWN'', currency_code = ascii ''RUB'',
         price_offer_id = ascii ''A1'', old_price = ascii ''0'', price = ascii ''100''\<rparr>,
        \<lparr>auto_action_enabled = ascii ''UNKNOWN'', currency_code = ascii ''RUB'',
         price_offer_id = ascii ''A2'', old_price = ascii ''0'', price = ascii ''50''\<rparr>]"
  by (simp add: seller_create_prices_def price_conversion_eq ascii_def)

lemma int_of_text_error: "int_of_text q = Inl e \<Longrightarrow> e = ValueError"
  by (auto simp: int_of_text_def Let_def split: option.splits if_splits)

lemma stock_level_text:
  "stock_level (CStr q) =
     (if q = ascii ''>10'' then Inr 100 else if q = ascii ''1'' then Inr 0 else int_of_text q)"
  by (simp add: stock_level_def)

lemma int_of_text_100: "int_of_text (ascii ''100'') = Inr 100"
  by (simp add: int_of_text_def strip_def is_space_def ascii_def digit_value_def digit_zeros_def
        int_max_str_digits_def)

lemma int_of_text_0: "int_of_text (ascii ''0'') = Inr 0"
  by (simp add: int_of_text_def strip_def is_space_def ascii_def digit_value_def digit_zeros_def
        int_max_str_digits_def)

lemma seller_stocks_loop_append:
  "seller_stocks_loop (pre @ rest) I acc =
   (case seller_stocks_loop pre I acc of
      (J, Inl e) \<Rightarrow> (J, Inl e)
    | (J, Inr out) \<Rightarrow> seller_stocks_loop rest J out)"
proof (induction pre arbitrary: I acc)
  case Nil
  show ?case by simp
next
  case (Cons w pre)
  show ?case
  proof (cases "py_str (Kod w) \<in> set I")
    case True
    show ?thesis
    proof (cases "stock_level (Kolichestvo w)")
      case (Inl e)
      with True show ?thesis by simp
    next
      case (Inr n)
      with True Cons.IH [of "remove1 (py_str (Kod w)) I" "acc @ [\<lparr>offer_id = py_str (Kod w), stock = n\<rparr>]"]
      show ?thesis by simp
    qed
  next
    case False
    with Cons.IH [of I acc] show ?thesis by simp
  qed
qed

lemma seller_create_stocks_fails:
  assumes pre: "seller_create_stocks pre I = (J, Inr done)"
    and w: "py_str (Kod w) \<in> set J"
    and q: "stock_level (Kolichestvo w) = Inl e"
  shows "seller_create_stocks (pre @ w # post) I = (J, Inl e)"
proof -
  obtain K r where l: "seller_stocks_loop pre I [] = (K, r)"
    by (cases "seller_stocks_loop pre I []") blast
  with pre obtain out where "r = Inr out" and "K = J"
    by (cases r) (auto simp: seller_create_stocks_def)
  with l have "seller_stocks_loop pre I [] = (J, Inr out)"
    by simp
  then have "seller_stocks_loop (pre @ w # post) I [] = seller_stocks_loop (w # post) J out"
    by (simp add: seller_stocks_loop_append)
  also have "\<dots> = (J, Inl e)"
    using w q by simp
  finally show ?thesis
    by (simp add: seller_create_stocks_def)
qed

lemma single_row_stocks:
  assumes "stock_level q = Inr n"
  shows "seller_create_stocks [\<lparr>Kod = k, Kolichestvo = q, Tsena = p\<rparr>] [py_str k] =
         ([], Inr [\<lparr>offer_id = py_str k, stock = n\<rparr>])"
  using assms by (simp add: seller_create_stocks_def)

lemma stock_level_examples:
  "stock_level (CStr (ascii ''100'')) = Inr 100"
  "stock_level (CStr (ascii ''>10'')) = Inr 100"
  "stock_level (CStr (ascii ''1'')) = Inr 0"
  "stock_level (CStr (ascii ''0'')) = Inr 0"
proof -
  have ne100: "ascii ''100'' \<noteq> ascii ''>10''" "ascii ''100'' \<noteq> ascii ''1''"
    by (simp_all add: ascii_def)
  have ne0: "ascii ''0'' \<noteq> ascii ''>10''" "ascii ''0'' \<noteq> ascii ''1''"
    by (simp_all add: ascii_def)
  show "stock_level (CStr (ascii ''100'')) = Inr 100"
    by (simp add: stock_level_text int_of_text_100 ne100)
  show "stock_level (CStr (ascii ''>10'')) = Inr 100"
    by (simp add: stock_level_text)
  have "ascii ''1'' \<noteq> ascii ''>10''"
    by (simp add: ascii_def)
  then show "stock_level (CStr (ascii ''1'')) = Inr 0"
    by (simp add: stock_level_text)
  show "stock_level (CStr (ascii ''0'')) = Inr 0"
    by (simp add: stock_level_text int_of_text_0 ne0)
qed

lemma leftover_same_iff:
  "leftover_ids F I = I \<longleftrightarrow> set I \<inter> set (map (\<lambda>w. py_str (Kod w)) F) = {}"
proof
  assume e: "leftover_ids F I = I"
  have "mset (map (\<lambda>w. py_str (Kod w)) (matched_rows F I)) + mset (leftover_ids F I) = mset I"
    by (rule mset_matched_leftover)
  with e have "mset (map (\<lambda>w. py_str (Kod w)) (matched_rows F I)) = {#}"
    by simp
  then have "set (map (\<lambda>w. py_str (Kod w)) (matched_rows F I)) = {}"
    by simp
  then show "set I \<inter> set (map (\<lambda>w. py_str (Kod w)) F) = {}"
    by (simp only: set_matched_rows)
next
  assume "set I \<inter> set (map (\<lambda>w. py_str (Kod w)) F) = {}"
  then have "set (map (\<lambda>w. py_str (Kod w)) (matched_rows F I)) = {}"
    by (simp only: set_matched_rows)
  then have "matched_rows F I = []"
    by simp
  with mset_matched_leftover [of F I] have "mset (leftover_ids F I) = mset I"
    by simp
  then have "length (leftover_ids F I) = length I"
    by (rule mset_eq_length)
  with subseq_leftover_ids [of F I] show "leftover_ids F I = I"
    by (rule subseq_same_length)
qed

lemma restamp_to_sku: "restamp d2 (to_sku wh d1 u) = to_sku wh d2 u"
  by (simp add: restamp_def to_sku_def)

text \<open>
  The rows that the first loop of \<open>create_stocks\<close> matches, by their position in the feed,
  and when the two functions return.
\<close>

lemma count_list_remove1_in:
  "a \<in> set xs \<Longrightarrow> count_list (remove1 a xs) c = (if a = c then count_list xs c - 1 else count_list xs c)"
  by (induction xs) auto

lemma matched_rows_index:
  "w \<in> set (matched_rows F I) \<longleftrightarrow>
   (\<exists>k < length F. F ! k = w \<and>
      count_list (map (\<lambda>w. py_str (Kod w)) (take k F)) (py_str (Kod w)) < count_list I (py_str (Kod w)))"
proof (induction F arbitrary: I)
  case Nil
  show ?case by simp
next
  case (Cons x F)
  let ?kod = "\<lambda>w. py_str (Kod w)"
  show ?case
  proof (cases "?kod x \<in> set I")
    case True
    let ?J = "remove1 (?kod x) I"
    have cJ: "count_list ?J c = (if ?kod x = c then count_list I c - 1 else count_list I c)" for c
      using True by (rule count_list_remove1_in)
    have pos: "0 < count_list I (?kod x)"
      using True by (rule count_list_pos)
    show ?thesis
    proof
      assume "w \<in> set (matched_rows (x # F) I)"
      with True have "w = x \<or> w \<in> set (matched_rows F ?J)"
        by simp
      then show "\<exists>k < length (x # F). (x # F) ! k = w \<and>
          count_list (map ?kod (take k (x # F))) (?kod w) < count_list I (?kod w)"
      proof
        assume "w = x"
        with pos have "(x # F) ! 0 = w \<and>
          count_list (map ?kod (take 0 (x # F))) (?kod w) < count_list I (?kod w)"
          by simp
        then show ?thesis by blast
      next
        assume "w \<in> set (matched_rows F ?J)"
        then obtain k where k: "k < length F" "F ! k = w"
          "count_list (map ?kod (take k F)) (?kod w) < count_list ?J (?kod w)"
          using Cons.IH [of ?J] by blast
        from k(3) have "count_list (map ?kod (take (Suc k) (x # F))) (?kod w) < count_list I (?kod w)"
          by (simp add: cJ split: if_splits)
        with k(1,2) have "Suc k < length (x # F) \<and> (x # F) ! Suc k = w \<and>
          count_list (map ?kod (take (Suc k) (x # F))) (?kod w) < count_list I (?kod w)"
          by simp
        then show ?thesis by blast
      qed
    next
      assume "\<exists>k < length (x # F). (x # F) ! k = w \<and>
          count_list (map ?kod (take k (x # F))) (?kod w) < count_list I (?kod w)"
      then obtain k where k: "k < length (x # F)" "(x # F) ! k = w"
          "count_list (map ?kod (take k (x # F))) (?kod w) < count_list I (?kod w)"
        by blast
      show "w \<in> set (matched_rows (x # F) I)"
      proof (cases k)
        case 0
        with k(2) True show ?thesis by simp
      next
        case (Suc j)
        with k have j: "j < length F" "F ! j = w"
          and c: "count_list (map ?kod (take (Suc j) (x # F))) (?kod w) < count_list I (?kod w)"
          by simp_all
        from c have "count_list (map ?kod (take j F)) (?kod w) < count_list ?J (?kod w)"
          by (simp add: cJ split: if_splits)
        with j have "w \<in> set (matched_rows F ?J)"
          using Cons.IH [of ?J] by blast
        with True show ?thesis by simp
      qed
    qed
  next
    case False
    then have zero: "count_list I (?kod x) = 0"
      by (simp add: count_list_0_iff)
    show ?thesis
    proof
      assume "w \<in> set (matched_rows (x # F) I)"
      with False have "w \<in> set (matched_rows F I)"
        by simp
      then obtain k where k: "k < length F" "F ! k = w"
          "count_list (map ?kod (take k F)) (?kod w) < count_list I (?kod w)"
        using Cons.IH [of I] by blast
      from k(3) zero have "?kod x \<noteq> ?kod w"
        by auto
      with k have "Suc k < length (x # F) \<and> (x # F) ! Suc k = w \<and>
          count_list (map ?kod (take (Suc k) (x # F))) (?kod w) < count_list I (?kod w)"
        by simp
      then show "\<exists>k < length (x # F). (x # F) ! k = w \<and>
          count_list (map ?kod (take k (x # F))) (?kod w) < count_list I (?kod w)"
        by blast
    next
      assume "\<exists>k < length (x # F). (x # F) ! k = w \<and>
          count_list (map ?kod (take k (x # F))) (?kod w) < count_list I (?kod w)"
      then obtain k where k: "k < length (x # F)" "(x # F) ! k = w"
          "count_list (map ?kod (take k (x # F))) (?kod w) < count_list I (?kod w)"
        by blast
      show "w \<in> set (matched_rows (x # F) I)"
      proof (cases k)
        case 0
        with k(2,3) zero show ?thesis by simp
      next
        case (Suc j)
        with k have j: "j < length F" "F ! j = w"
          and c: "count_list (map ?kod (take (Suc j) (x # F))) (?kod w) < count_list I (?kod w)"
          by simp_all
        from c have "count_list (map ?kod (take j F)) (?kod w) < count_list I (?kod w)"
          by (simp split: if_splits)
        with j have "w \<in> set (matched_rows F I)"
          using Cons.IH [of I] by blast
        with False show ?thesis by simp
      qed
    qed
  qed
qed

lemma emits_normalises:
  "list_all2 emits ws us \<Longrightarrow> \<forall>w \<in> set ws. \<exists>n. stock_level (Kolichestvo w) = Inr n"
  by (induction rule: list_all2_induct) (auto simp: emits_def)

lemma quotes_text:
  "list_all2 quotes ws ps \<Longrightarrow> \<forall>w \<in> set ws. \<exists>s. Tsena w = CStr s"
  by (induction rule: list_all2_induct) (auto simp: quotes_def)

lemma seller_create_stocks_returns_iff:
  "(\<exists>I' stocks. seller_create_stocks F I = (I', Inr stocks)) \<longleftrightarrow>
   (\<forall>w \<in> set (matched_rows F I). \<exists>n. stock_level (Kolichestvo w) = Inr n)"
proof
  assume "\<exists>I' stocks. seller_create_stocks F I = (I', Inr stocks)"
  then obtain I' stocks where r: "seller_create_stocks F I = (I', Inr stocks)"
    by blast
  from seller_create_stocks_returns(2) [OF r] obtain new where
    "list_all2 emits (matched_rows F I) new"
    by blast
  then show "\<forall>w \<in> set (matched_rows F I). \<exists>n. stock_level (Kolichestvo w) = Inr n"
    by (rule emits_normalises)
next
  assume "\<forall>w \<in> set (matched_rows F I). \<exists>n. stock_level (Kolichestvo w) = Inr n"
  from seller_stocks_loop_total [OF this, of "[]"] show "\<exists>I' stocks. seller_create_stocks F I = (I', Inr stocks)"
    by (auto simp: seller_create_stocks_def)
qed

lemma seller_create_prices_returns_iff:
  "(\<exists>prices. seller_create_prices F I = Inr prices) \<longleftrightarrow>
   (\<forall>w \<in> set F. py_str (Kod w) \<in> set I \<longrightarrow> (\<exists>s. Tsena w = CStr s))"
proof
  assume "\<exists>prices. seller_create_prices F I = Inr prices"
  then obtain prices where "seller_prices_loop F I [] = Inr prices"
    by (auto simp: seller_create_prices_def)
  from seller_prices_loop_returns [OF this]
  have "list_all2 quotes (filter (\<lambda>w. py_str (Kod w) \<in> set I) F) prices"
    by simp
  from quotes_text [OF this] show "\<forall>w \<in> set F. py_str (Kod w) \<in> set I \<longrightarrow> (\<exists>s. Tsena w = CStr s)"
    by simp
next
  assume "\<forall>w \<in> set F. py_str (Kod w) \<in> set I \<longrightarrow> (\<exists>s. Tsena w = CStr s)"
  from seller_prices_loop_total [OF this, of "[]"] show "\<exists>prices. seller_create_prices F I = Inr prices"
    by (simp add: seller_create_prices_def)
qed

lemma seller_create_stocks_cases:
  "(\<exists>I' stocks. seller_create_stocks F I = (I', Inr stocks)) \<or>
   (\<exists>I' e. seller_create_stocks F I = (I', Inl e))"
proof -
  obtain I' r where "seller_create_stocks F I = (I', r)"
    by (cases "seller_create_stocks F I") blast
  then show ?thesis
    by (cases r) auto
qed

text \<open>The first row that carries a given code.\<close>

lemma distinct_count_list: "distinct I \<Longrightarrow> count_list I c = (if c \<in> set I then 1 else 0)"
  by (induction I) auto

lemma normalises_cases: "(\<nexists>n. stock_level q = Inr n) \<longleftrightarrow> (\<exists>e. stock_level q = Inl e)"
  by (cases "stock_level q") auto

lemma matched_rows_all:
  "(\<forall>w \<in> set (matched_rows F I). P w) \<longleftrightarrow>
   (\<forall>k < length F.
      count_list (map (\<lambda>w. py_str (Kod w)) (take k F)) (py_str (Kod (F ! k))) < count_list I (py_str (Kod (F ! k)))
      \<longrightarrow> P (F ! k))"
  unfolding Ball_def matched_rows_index by blast

lemma leftover_keeps:
  "c \<notin> set (map (\<lambda>w. py_str (Kod w)) F) \<Longrightarrow> count_list (leftover_ids F I) c = count_list I c"
proof (induction F arbitrary: I)
  case Nil
  show ?case by simp
next
  case (Cons x F)
  from Cons.prems have ne: "py_str (Kod x) \<noteq> c" and rest: "c \<notin> set (map (\<lambda>w. py_str (Kod w)) F)"
    by auto
  have "count_list (remove1 (py_str (Kod x)) I) c = count_list I c"
  proof (cases "py_str (Kod x) \<in> set I")
    case True
    with ne show ?thesis by (simp add: count_list_remove1_in)
  next
    case False
    then show ?thesis by (simp add: remove1_idem)
  qed
  with Cons.IH [OF rest, of "remove1 (py_str (Kod x)) I"] show ?case
    by simp
qed

lemma remove1_single: "count_list xs c = 1 \<Longrightarrow> c \<notin> set (remove1 c xs)"
  by (induction xs) (auto simp: count_list_0_iff split: if_splits)

lemma first_row:
  assumes "c \<in> set (map (\<lambda>w. py_str (Kod w)) F)"
  shows "\<exists>pre w post. F = pre @ w # post \<and> py_str (Kod w) = c \<and> c \<notin> set (map (\<lambda>w. py_str (Kod w)) pre)"
proof -
  from assms have "\<exists>w \<in> set F. py_str (Kod w) = c"
    by auto
  from split_list_first_prop [OF this] obtain pre w post where
    "F = pre @ w # post" "py_str (Kod w) = c" "\<forall>y \<in> set pre. py_str (Kod y) \<noteq> c"
    by blast
  then have "F = pre @ w # post \<and> py_str (Kod w) = c \<and> c \<notin> set (map (\<lambda>w. py_str (Kod w)) pre)"
    by auto
  then show ?thesis by blast
qed

lemma first_row_stock:
  assumes one: "count_list I c = 1"
    and F: "F = pre @ w # post"
    and w: "py_str (Kod w) = c"
    and pre: "c \<notin> set (map (\<lambda>w. py_str (Kod w)) pre)"
    and r: "seller_create_stocks F I = (I', Inr stocks)"
  shows "\<exists>n. stock_level (Kolichestvo w) = Inr n
             \<and> filter (\<lambda>u. offer_id u = c) stocks = [\<lparr>offer_id = c, stock = n\<rparr>]"
proof -
  obtain K out where l: "seller_stocks_loop F I [] = (K, Inr out)"
    and s: "stocks = out @ map (\<lambda>i. \<lparr>offer_id = i, stock = 0\<rparr>) K" and K: "K = I'"
    using r by (auto simp: seller_create_stocks_def split: prod.splits sum.splits)
  obtain J r0 where p: "seller_stocks_loop pre I [] = (J, r0)"
    by (cases "seller_stocks_loop pre I []") blast
  from l p F obtain out0 where r0: "r0 = Inr out0"
    by (cases r0) (auto simp: seller_stocks_loop_append)
  with l p F have rest: "seller_stocks_loop (w # post) J out0 = (K, Inr out)"
    by (simp add: seller_stocks_loop_append)
  from seller_stocks_loop_returns [of pre I "[]" J out0] p r0
  have J: "J = leftover_ids pre I" and e0: "list_all2 emits (matched_rows pre I) out0"
    by simp_all
  from J one pre have cJ: "count_list J c = 1"
    by (simp add: leftover_keeps)
  then have inJ: "c \<in> set J"
    by (cases "c \<in> set J") (simp_all add: count_list_0_iff)
  from rest inJ w obtain n where n: "stock_level (Kolichestvo w) = Inr n"
    by (cases "stock_level (Kolichestvo w)") auto
  let ?u = "\<lparr>offer_id = c, stock = n\<rparr>"
  from rest inJ w n
  have "seller_stocks_loop post (remove1 c J) (out0 @ [?u]) = (K, Inr out)"
    by simp
  from seller_stocks_loop_returns [OF this] obtain new where
    K': "K = leftover_ids post (remove1 c J)" and o: "out = (out0 @ [?u]) @ new"
    and e1: "list_all2 emits (matched_rows post (remove1 c J)) new"
    by blast
  from cJ have gone: "c \<notin> set (remove1 c J)"
    by (rule remove1_single)
  have f0: "filter (\<lambda>u. offer_id u = c) out0 = []"
  proof -
    have "set (map offer_id out0) \<subseteq> set (map (\<lambda>w. py_str (Kod w)) pre)"
      using emits_offer_id [OF e0] matched_rows_subset [of _ pre I] by auto
    with pre have "c \<notin> set (map offer_id out0)"
      by blast
    then show ?thesis
      by (auto simp: filter_empty_conv)
  qed
  have f1: "filter (\<lambda>u. offer_id u = c) new = []"
  proof -
    have "set (map offer_id new) \<subseteq> set (remove1 c J)"
      using emits_offer_id [OF e1] matched_rows_subset [of _ post "remove1 c J"] by auto
    with gone have "c \<notin> set (map offer_id new)"
      by blast
    then show ?thesis
      by (auto simp: filter_empty_conv)
  qed
  have f2: "filter (\<lambda>u. offer_id u = c) (map (\<lambda>i. \<lparr>offer_id = i, stock = 0\<rparr>) K) = []"
  proof -
    have "set K \<subseteq> set (remove1 c J)"
      unfolding K' by (rule leftover_subset)
    with gone have "c \<notin> set K"
      by blast
    then show ?thesis
      by (auto simp: filter_empty_conv)
  qed
  from s o f0 f1 f2 have "filter (\<lambda>u. offer_id u = c) stocks = [?u]"
    by simp
  with n show ?thesis
    by blast
qed

lemma first_row_fails:
  assumes one: "c \<in> set I"
    and w: "py_str (Kod w) = c"
    and pre: "c \<notin> set (map (\<lambda>w. py_str (Kod w)) pre)"
    and r: "seller_create_stocks pre I = (J, Inr done)"
    and q: "stock_level (Kolichestvo w) = Inl e"
  shows "seller_create_stocks (pre @ w # post) I = (J, Inl e)"
proof -
  have "J = leftover_ids pre I"
    by (rule seller_create_stocks_returns(1) [OF r])
  moreover have "0 < count_list I c"
    using one by (rule count_list_pos)
  ultimately have "0 < count_list J c"
    using pre by (simp add: leftover_keeps)
  then have "c \<in> set J"
    by (cases "c \<in> set J") (simp_all add: count_list_0_iff)
  with w have "py_str (Kod w) \<in> set J"
    by simp
  from seller_create_stocks_fails [OF r this q] show ?thesis .
qed

text \<open>
  A call on a fresh copy returns what the function returns on the contents of the list,
  and leaves the list itself as it was.
\<close>

lemma on_copy_seller_stocks:
  assumes "a < next_ref s"
  shows "fst (on_copy (seller_create_stocks_at F) a s) = snd (seller_create_stocks F (objects s a))"
    and "objects (snd (on_copy (seller_create_stocks_at F) a s)) a = objects s a"
    and "next_ref (snd (on_copy (seller_create_stocks_at F) a s)) = Suc (next_ref s)"
  using assms
  by (simp_all add: on_copy_def list_copy_def seller_create_stocks_at_def split: prod.splits)

lemma on_copy_market_stocks:
  assumes "a < next_ref s"
  shows "fst (on_copy (market_create_stocks_at F wh d) a s) = snd (market_create_stocks F (objects s a) wh d)"
    and "objects (snd (on_copy (market_create_stocks_at F wh d) a s)) a = objects s a"
    and "next_ref (snd (on_copy (market_create_stocks_at F wh d) a s)) = Suc (next_ref s)"
  using assms
  by (simp_all add: on_copy_def list_copy_def market_create_stocks_at_def split: prod.splits)

lemma on_copy_seller_prices:
  assumes "a < next_ref s"
  shows "fst (on_copy (seller_create_prices_at F) a s) = seller_create_prices F (objects s a)"
    and "objects (snd (on_copy (seller_create_prices_at F) a s)) a = objects s a"
    and "next_ref (snd (on_copy (seller_create_prices_at F) a s)) = Suc (next_ref s)"
  using assms
  by (simp_all add: on_copy_def list_copy_def seller_create_prices_at_def split: prod.splits)

lemma on_copy_market_prices:
  assumes "a < next_ref s"
  shows "fst (on_copy (market_create_prices_at F) a s) = market_create_prices F (objects s a)"
    and "objects (snd (on_copy (market_create_prices_at F) a s)) a = objects s a"
    and "next_ref (snd (on_copy (market_create_prices_at F) a s)) = Suc (next_ref s)"
  using assms
  by (simp_all add: on_copy_def list_copy_def market_create_prices_at_def split: prod.splits)

text \<open>Two calls of \<open>create_stocks\<close> of market.py that read different dates.\<close>

lemma market_stocks_dates:
  assumes r: "market_create_stocks F I wh d1 = (I', Inr skus)"
  shows "market_create_stocks F I wh d2 = (I', Inr skus) \<longleftrightarrow> d1 = d2 \<or> I = []"
proof -
  obtain K r0 where s: "seller_create_stocks F I = (K, r0)"
    by (cases "seller_create_stocks F I") blast
  with r obtain ss where r0: "r0 = Inr ss" and K: "K = I'" and skus: "skus = map (to_sku wh d1) ss"
    by (cases r0) (auto simp: market_create_stocks_sim)
  from s r0 K have s': "seller_create_stocks F I = (I', Inr ss)"
    by simp
  have "size (mset (map offer_id ss)) = size (mset I)"
    by (simp only: seller_stocks_mset [OF s'])
  then have len: "length ss = length I"
    by simp
  have m2: "market_create_stocks F I wh d2 = (I', Inr (map (to_sku wh d2) ss))"
    using s' by (simp add: market_create_stocks_sim)
  show ?thesis
  proof (cases "I = []")
    case True
    with len have "ss = []" by simp
    with m2 skus True show ?thesis by simp
  next
    case False
    with len obtain u rest where ss: "ss = u # rest"
      by (cases ss) auto
    show ?thesis
    proof
      assume "market_create_stocks F I wh d2 = (I', Inr skus)"
      with m2 skus ss have "to_sku wh d2 u = to_sku wh d1 u"
        by simp
      then show "d1 = d2 \<or> I = []"
        by (simp add: to_sku_def)
    next
      assume "d1 = d2 \<or> I = []"
      with False have "d1 = d2" by simp
      with r show "market_create_stocks F I wh d2 = (I', Inr skus)" by simp
    qed
  qed
qed

lemma market_stocks_restamp:
  "market_create_stocks F I wh d2 =
     (case market_create_stocks F I wh d1 of
        (I', r) \<Rightarrow> (I', map_sum (\<lambda>e. e) (map (restamp d2)) r))"
proof -
  obtain K r where s: "seller_create_stocks F I = (K, r)"
    by (cases "seller_create_stocks F I") blast
  show ?thesis
  proof (cases r)
    case (Inl e)
    with s show ?thesis
      by (simp add: market_create_stocks_sim)
  next
    case (Inr ss)
    have "map (restamp d2) (map (to_sku wh d1) ss) = map (to_sku wh d2) ss"
      by (simp add: restamp_to_sku)
    with Inr s show ?thesis
      by (simp add: market_create_stocks_sim)
  qed
qed

text \<open>
  \<open>create_prices\<close> on the list that \<open>create_stocks\<close> leaves behind, as in \<open>main\<close> of
  seller.py.
\<close>

lemma seller_prices_loop_unlisted:
  "set I \<inter> set (map (\<lambda>w. py_str (Kod w)) F) = {} \<Longrightarrow> seller_prices_loop F I acc = Inr acc"
  by (induction F) auto

lemma prices_after_stocks:
  assumes "distinct I" and "seller_create_stocks F I = (I', Inr stocks)"
  shows "seller_create_prices F I' = Inr []"
proof -
  have "I' = leftover_ids F I"
    by (rule seller_create_stocks_returns(1) [OF assms(2)])
  with leftover_disjoint [OF assms(1), of F] show ?thesis
    by (simp add: seller_create_prices_def seller_prices_loop_unlisted)
qed

subsection \<open>Coverage\<close>

text \<open>
  Claim C1, as amended. Whenever \<open>create_stocks\<close> returns on a feed \<open>F\<close> and a list of
  identifiers \<open>I\<close>, it has produced exactly \<open>len(I)\<close> stock updates, and their
  identifiers are those of \<open>I\<close>, each as often as it occurs there (so once each when \<open>I\<close>
  has no duplicates). The updates come in two parts: one for each matched row of the
  feed, with the identifier and the normalised quantity of that row, and one with
  quantity 0 for each identifier left over; with no duplicates in \<open>I\<close>, a left-over
  identifier is the code of no row. Whenever \<open>create_prices\<close> returns, on a fresh copy of
  \<open>I\<close>, it has produced at most \<open>len(F)\<close> price updates, and their identifiers are exactly
  those of \<open>I\<close> that are the code of some row, so an unmatched identifier has none.

  \<open>create_stocks\<close> returns exactly when every row that is reached while its code is still
  listed has a quantity that normalises, and it raises exactly when some such row has a
  quantity that does not. A row is reached with its code still listed when the code
  occurs in \<open>I\<close> more often than among the rows before it; with no duplicates in \<open>I\<close>,
  when the code is in \<open>I\<close> and no earlier row has it. \<open>create_prices\<close> returns exactly when
  every row whose code is in \<open>I\<close> has a price that is text. So both return when every row
  whose code is in \<open>I\<close> has a quantity that normalises and a price that is text.
\<close>

theorem reconcile_coverage:
  "(seller_create_stocks F I = (I', Inr stocks) \<longrightarrow>
      length stocks = length I
      \<and> mset (map offer_id stocks) = mset I
      \<and> (\<exists>M new. subseq M F \<and> list_all2 emits M new
            \<and> stocks = new @ map (\<lambda>i. \<lparr>offer_id = i, stock = 0\<rparr>) I'
            \<and> set (map (\<lambda>w. py_str (Kod w)) M) = set I \<inter> set (map (\<lambda>w. py_str (Kod w)) F))
      \<and> set I' \<subseteq> set I
      \<and> (distinct I \<longrightarrow> set I' \<inter> set (map (\<lambda>w. py_str (Kod w)) F) = {}))
   \<and> (seller_create_prices F I = Inr prices \<longrightarrow>
      length prices \<le> length F
      \<and> set (map price_offer_id prices) = set I \<inter> set (map (\<lambda>w. py_str (Kod w)) F))
   \<and> ((\<forall>w \<in> set F. py_str (Kod w) \<in> set I \<longrightarrow>
          (\<exists>n. stock_level (Kolichestvo w) = Inr n) \<and> (\<exists>s. Tsena w = CStr s)) \<longrightarrow>
        (\<exists>J ss ps. seller_create_stocks F I = (J, Inr ss) \<and> seller_create_prices F I = Inr ps))
   \<and> ((\<exists>J ss. seller_create_stocks F I = (J, Inr ss)) \<longleftrightarrow>
        (\<forall>k < length F.
           count_list (map (\<lambda>w. py_str (Kod w)) (take k F)) (py_str (Kod (F ! k)))
             < count_list I (py_str (Kod (F ! k)))
           \<longrightarrow> (\<exists>n. stock_level (Kolichestvo (F ! k)) = Inr n)))
   \<and> ((\<exists>J e. seller_create_stocks F I = (J, Inl e)) \<longleftrightarrow>
        (\<exists>k < length F.
           count_list (map (\<lambda>w. py_str (Kod w)) (take k F)) (py_str (Kod (F ! k)))
             < count_list I (py_str (Kod (F ! k)))
           \<and> (\<exists>e. stock_level (Kolichestvo (F ! k)) = Inl e)))
   \<and> (distinct I \<longrightarrow>
        ((\<exists>J ss. seller_create_stocks F I = (J, Inr ss)) \<longleftrightarrow>
         (\<forall>k < length F.
            py_str (Kod (F ! k)) \<in> set I
            \<and> py_str (Kod (F ! k)) \<notin> set (map (\<lambda>w. py_str (Kod w)) (take k F))
            \<longrightarrow> (\<exists>n. stock_level (Kolichestvo (F ! k)) = Inr n))))
   \<and> ((\<exists>ps. seller_create_prices F I = Inr ps) \<longleftrightarrow>
        (\<forall>w \<in> set F. py_str (Kod w) \<in> set I \<longrightarrow> (\<exists>s. Tsena w = CStr s)))"
proof -
  let ?kod = "\<lambda>w. py_str (Kod w)"
  let ?reached = "\<lambda>k. count_list (map ?kod (take k F)) (?kod (F ! k)) < count_list I (?kod (F ! k))"
  have p1: "seller_create_stocks F I = (I', Inr stocks) \<longrightarrow>
      length stocks = length I
      \<and> mset (map offer_id stocks) = mset I
      \<and> (\<exists>M new. subseq M F \<and> list_all2 emits M new
            \<and> stocks = new @ map (\<lambda>i. \<lparr>offer_id = i, stock = 0\<rparr>) I'
            \<and> set (map ?kod M) = set I \<inter> set (map ?kod F))
      \<and> set I' \<subseteq> set I
      \<and> (distinct I \<longrightarrow> set I' \<inter> set (map ?kod F) = {})"
  proof (intro conjI impI)
    assume r: "seller_create_stocks F I = (I', Inr stocks)"
    from seller_create_stocks_returns [OF r] obtain new where
      i: "I' = leftover_ids F I" and l: "list_all2 emits (matched_rows F I) new" and
      s: "stocks = new @ map (\<lambda>i. \<lparr>offer_id = i, stock = 0\<rparr>) I'"
      by blast
    show m: "mset (map offer_id stocks) = mset I"
      by (rule seller_stocks_mset [OF r])
    from m have "size (mset (map offer_id stocks)) = size (mset I)"
      by simp
    then show "length stocks = length I"
      by simp
    from l s subseq_matched_rows [of F I] set_matched_rows [of F I]
    show "\<exists>M new. subseq M F \<and> list_all2 emits M new
              \<and> stocks = new @ map (\<lambda>i. \<lparr>offer_id = i, stock = 0\<rparr>) I'
              \<and> set (map ?kod M) = set I \<inter> set (map ?kod F)"
      by blast
    show "set I' \<subseteq> set I"
      unfolding i by (rule leftover_subset)
    show "set I' \<inter> set (map ?kod F) = {}" if "distinct I"
      unfolding i using that by (rule leftover_disjoint)
  qed
  have p2: "seller_create_prices F I = Inr prices \<longrightarrow>
      length prices \<le> length F
      \<and> set (map price_offer_id prices) = set I \<inter> set (map ?kod F)"
  proof (intro conjI impI)
    assume r: "seller_create_prices F I = Inr prices"
    have e: "map price_offer_id prices = filter (\<lambda>c. c \<in> set I) (map ?kod F)"
      by (rule seller_prices_ids [OF r])
    have "length (map price_offer_id prices) \<le> length (map ?kod F)"
      unfolding e by (rule length_filter_le)
    then show "length prices \<le> length F"
      by simp
    have "set (map price_offer_id prices) = set (filter (\<lambda>c. c \<in> set I) (map ?kod F))"
      by (simp only: e)
    then show "set (map price_offer_id prices) = set I \<inter> set (map ?kod F)"
      by auto
  qed
  have p3: "(\<forall>w \<in> set F. ?kod w \<in> set I \<longrightarrow>
          (\<exists>n. stock_level (Kolichestvo w) = Inr n) \<and> (\<exists>s. Tsena w = CStr s)) \<longrightarrow>
        (\<exists>J ss ps. seller_create_stocks F I = (J, Inr ss) \<and> seller_create_prices F I = Inr ps)"
  proof
    assume a: "\<forall>w \<in> set F. ?kod w \<in> set I \<longrightarrow>
            (\<exists>n. stock_level (Kolichestvo w) = Inr n) \<and> (\<exists>s. Tsena w = CStr s)"
    then have "\<forall>w \<in> set F. ?kod w \<in> set I \<longrightarrow> (\<exists>n. stock_level (Kolichestvo w) = Inr n)"
      by blast
    from seller_create_stocks_total [OF this] obtain ss where
      "seller_create_stocks F I = (leftover_ids F I, Inr ss)"
      by blast
    moreover from a have "\<forall>w \<in> set F. ?kod w \<in> set I \<longrightarrow> (\<exists>s. Tsena w = CStr s)"
      by blast
    from seller_prices_loop_total [OF this, of "[]"] obtain ps where
      "seller_create_prices F I = Inr ps"
      by (auto simp: seller_create_prices_def)
    ultimately show "\<exists>J ss ps. seller_create_stocks F I = (J, Inr ss) \<and> seller_create_prices F I = Inr ps"
      by blast
  qed
  have p4: "(\<exists>J ss. seller_create_stocks F I = (J, Inr ss)) \<longleftrightarrow>
        (\<forall>k < length F. ?reached k \<longrightarrow> (\<exists>n. stock_level (Kolichestvo (F ! k)) = Inr n))"
    unfolding seller_create_stocks_returns_iff
    by (rule matched_rows_all [of F I "\<lambda>w. \<exists>n. stock_level (Kolichestvo w) = Inr n"])
  have p5: "(\<exists>J e. seller_create_stocks F I = (J, Inl e)) \<longleftrightarrow>
        (\<exists>k < length F. ?reached k \<and> (\<exists>e. stock_level (Kolichestvo (F ! k)) = Inl e))"
  proof -
    have "(\<exists>J e. seller_create_stocks F I = (J, Inl e)) \<longleftrightarrow> \<not> (\<exists>J ss. seller_create_stocks F I = (J, Inr ss))"
      using seller_create_stocks_cases [of F I] by auto
    also have "\<dots> \<longleftrightarrow> (\<exists>k < length F. ?reached k \<and> (\<nexists>n. stock_level (Kolichestvo (F ! k)) = Inr n))"
      unfolding p4 by blast
    finally show ?thesis
      unfolding normalises_cases .
  qed
  have p6: "distinct I \<longrightarrow>
        ((\<exists>J ss. seller_create_stocks F I = (J, Inr ss)) \<longleftrightarrow>
         (\<forall>k < length F.
            ?kod (F ! k) \<in> set I \<and> ?kod (F ! k) \<notin> set (map ?kod (take k F))
            \<longrightarrow> (\<exists>n. stock_level (Kolichestvo (F ! k)) = Inr n)))"
  proof
    assume d: "distinct I"
    have "?reached k \<longleftrightarrow> ?kod (F ! k) \<in> set I \<and> ?kod (F ! k) \<notin> set (map ?kod (take k F))" for k
    proof (cases "?kod (F ! k) \<in> set I")
      case True
      then have "count_list I (?kod (F ! k)) = 1"
        using d by (simp add: distinct_count_list)
      then have "?reached k \<longleftrightarrow> count_list (map ?kod (take k F)) (?kod (F ! k)) = 0"
        by (simp only: less_one)
      with True show ?thesis
        by (simp only: count_list_0_iff simp_thms)
    next
      case False
      then have "count_list I (?kod (F ! k)) = 0"
        by (simp add: count_list_0_iff)
      with False show ?thesis
        by simp
    qed
    then show "(\<exists>J ss. seller_create_stocks F I = (J, Inr ss)) \<longleftrightarrow>
         (\<forall>k < length F.
            ?kod (F ! k) \<in> set I \<and> ?kod (F ! k) \<notin> set (map ?kod (take k F))
            \<longrightarrow> (\<exists>n. stock_level (Kolichestvo (F ! k)) = Inr n))"
      unfolding p4 by simp
  qed
  have p7: "(\<exists>ps. seller_create_prices F I = Inr ps) \<longleftrightarrow>
        (\<forall>w \<in> set F. ?kod w \<in> set I \<longrightarrow> (\<exists>s. Tsena w = CStr s))"
    by (rule seller_create_prices_returns_iff)
  show ?thesis
    by (intro conjI p1 p2 p3 p4 p5 p6 p7)
qed

theorem reconcile_coverage_witness:
  "seller_create_stocks
     [\<lparr>Kod = CStr (ascii ''A1''), Kolichestvo = CStr (ascii ''>10''), Tsena = CStr (ascii ''100.00'')\<rparr>,
      \<lparr>Kod = CStr (ascii ''A2''), Kolichestvo = CStr (ascii ''1''), Tsena = CStr (ascii ''50.00'')\<rparr>]
     [ascii ''A1'', ascii ''A2'', ascii ''A3''] =
   ([ascii ''A3''],
    Inr [\<lparr>offer_id = ascii ''A1'', stock = 100\<rparr>, \<lparr>offer_id = ascii ''A2'', stock = 0\<rparr>,
         \<lparr>offer_id = ascii ''A3'', stock = 0\<rparr>])
   \<and> mset (map offer_id [\<lparr>offer_id = ascii ''A1'', stock = 100\<rparr>, \<lparr>offer_id = ascii ''A2'', stock = 0\<rparr>,
              \<lparr>offer_id = ascii ''A3'', stock = 0\<rparr>]) = mset [ascii ''A1'', ascii ''A2'', ascii ''A3'']
   \<and> seller_create_prices
     [\<lparr>Kod = CStr (ascii ''A1''), Kolichestvo = CStr (ascii ''>10''), Tsena = CStr (ascii ''100.00'')\<rparr>,
      \<lparr>Kod = CStr (ascii ''A2''), Kolichestvo = CStr (ascii ''1''), Tsena = CStr (ascii ''50.00'')\<rparr>]
     [ascii ''A1'', ascii ''A2'', ascii ''A3''] =
   Inr [\<lparr>auto_action_enabled = ascii ''UNKNOWN'', currency_code = ascii ''RUB'',
         price_offer_id = ascii ''A1'', old_price = ascii ''0'', price = ascii ''100''\<rparr>,
        \<lparr>auto_action_enabled = ascii ''UNKNOWN'', currency_code = ascii ''RUB'',
         price_offer_id = ascii ''A2'', old_price = ascii ''0'', price = ascii ''50''\<rparr>]
   \<and> set (map price_offer_id
        [\<lparr>auto_action_enabled = ascii ''UNKNOWN'', currency_code = ascii ''RUB'',
          price_offer_id = ascii ''A1'', old_price = ascii ''0'', price = ascii ''100''\<rparr>,
         \<lparr>auto_action_enabled = ascii ''UNKNOWN'', currency_code = ascii ''RUB'',
          price_offer_id = ascii ''A2'', old_price = ascii ''0'', price = ascii ''50''\<rparr>]) =
       set [ascii ''A1'', ascii ''A2'', ascii ''A3''] \<inter>
       set (map (\<lambda>w. py_str (Kod w))
        [\<lparr>Kod = CStr (ascii ''A1''), Kolichestvo = CStr (ascii ''>10''), Tsena = CStr (ascii ''100.00'')\<rparr>,
         \<lparr>Kod = CStr (ascii ''A2''), Kolichestvo = CStr (ascii ''1''), Tsena = CStr (ascii ''50.00'')\<rparr>])
   \<and> distinct [ascii ''A1'', ascii ''A2'', ascii ''A3'']"
proof -
  have d: "distinct [ascii ''A1'', ascii ''A2'', ascii ''A3'']"
    by (simp add: ascii_def)
  from d scenario_stocks scenario_prices
    reconcile_coverage [of
      "[\<lparr>Kod = CStr (ascii ''A1''), Kolichestvo = CStr (ascii ''>10''), Tsena = CStr (ascii ''100.00'')\<rparr>,
        \<lparr>Kod = CStr (ascii ''A2''), Kolichestvo = CStr (ascii ''1''), Tsena = CStr (ascii ''50.00'')\<rparr>]"
      "[ascii ''A1'', ascii ''A2'', ascii ''A3'']" "[ascii ''A3'']"
      "[\<lparr>offer_id = ascii ''A1'', stock = 100\<rparr>, \<lparr>offer_id = ascii ''A2'', stock = 0\<rparr>,
        \<lparr>offer_id = ascii ''A3'', stock = 0\<rparr>]"
      "[\<lparr>auto_action_enabled = ascii ''UNKNOWN'', currency_code = ascii ''RUB'',
         price_offer_id = ascii ''A1'', old_price = ascii ''0'', price = ascii ''100''\<rparr>,
        \<lparr>auto_action_enabled = ascii ''UNKNOWN'', currency_code = ascii ''RUB'',
         price_offer_id = ascii ''A2'', old_price = ascii ''0'', price = ascii ''50''\<rparr>]"]
  show ?thesis
    by blast
qed

text \<open>
  As first stated, for every feed, the claim fails: a matched row whose quantity is not a
  number makes \<open>create_stocks\<close> raise, and then there is no stock update at all, although
  there is one identifier.
\<close>

theorem reconcile_coverage_counterexample:
  "seller_create_stocks
     [\<lparr>Kod = CStr (ascii ''A1''), Kolichestvo = CStr (ascii ''many''), Tsena = CStr (ascii ''100.00'')\<rparr>]
     [ascii ''A1''] = ([ascii ''A1''], Inl ValueError)"
  by (simp add: seller_create_stocks_def stock_level_def ascii_def int_of_text_def strip_def
        is_space_def digit_value_def digit_zeros_def)

subsection \<open>Order\<close>

text \<open>
  Claim C7. The stock updates of \<open>create_stocks\<close> are, first, one for each matched row, in
  the order of the feed (the matched rows are a subsequence of the feed, and a code
  listed in \<open>I\<close> is matched as soon as a row carries it), then one for each identifier
  left over, in the order in which \<open>I\<close> had them (they are a subsequence of \<open>I\<close>). The
  price updates of \<open>create_prices\<close> answer, one to one and in the order of the feed, to the
  rows whose code is in \<open>I\<close>; an identifier that is the code of no row gets none.
\<close>

theorem update_order:
  "(seller_create_stocks F I = (I', Inr stocks) \<longrightarrow>
      (\<exists>M new. subseq M F \<and> list_all2 emits M new
         \<and> stocks = new @ map (\<lambda>i. \<lparr>offer_id = i, stock = 0\<rparr>) I'
         \<and> map offer_id stocks = map (\<lambda>w. py_str (Kod w)) M @ I'
         \<and> set (map (\<lambda>w. py_str (Kod w)) M) = set I \<inter> set (map (\<lambda>w. py_str (Kod w)) F)
         \<and> mset (map (\<lambda>w. py_str (Kod w)) M) + mset I' = mset I)
      \<and> subseq I' I)
   \<and> (seller_create_prices F I = Inr prices \<longrightarrow>
      list_all2 quotes (filter (\<lambda>w. py_str (Kod w) \<in> set I) F) prices
      \<and> map price_offer_id prices = filter (\<lambda>c. c \<in> set I) (map (\<lambda>w. py_str (Kod w)) F))"
proof (intro conjI impI)
  assume r: "seller_create_stocks F I = (I', Inr stocks)"
  from seller_create_stocks_returns [OF r] obtain new where
    i: "I' = leftover_ids F I" and l: "list_all2 emits (matched_rows F I) new" and
    s: "stocks = new @ map (\<lambda>i. \<lparr>offer_id = i, stock = 0\<rparr>) I'"
    by blast
  show "subseq I' I"
    unfolding i by (rule subseq_leftover_ids)
  have "map offer_id stocks = map (\<lambda>w. py_str (Kod w)) (matched_rows F I) @ I'"
    unfolding i by (rule seller_stocks_ids [OF r])
  moreover have "mset (map (\<lambda>w. py_str (Kod w)) (matched_rows F I)) + mset I' = mset I"
    unfolding i by (rule mset_matched_leftover)
  ultimately show "\<exists>M new. subseq M F \<and> list_all2 emits M new
         \<and> stocks = new @ map (\<lambda>i. \<lparr>offer_id = i, stock = 0\<rparr>) I'
         \<and> map offer_id stocks = map (\<lambda>w. py_str (Kod w)) M @ I'
         \<and> set (map (\<lambda>w. py_str (Kod w)) M) = set I \<inter> set (map (\<lambda>w. py_str (Kod w)) F)
         \<and> mset (map (\<lambda>w. py_str (Kod w)) M) + mset I' = mset I"
    using l s subseq_matched_rows [of F I] set_matched_rows [of F I] by blast
next
  assume r: "seller_create_prices F I = Inr prices"
  with seller_prices_loop_returns [of F I "[]" prices]
  show "list_all2 quotes (filter (\<lambda>w. py_str (Kod w) \<in> set I) F) prices"
    by (simp add: seller_create_prices_def)
  show "map price_offer_id prices = filter (\<lambda>c. c \<in> set I) (map (\<lambda>w. py_str (Kod w)) F)"
    by (rule seller_prices_ids [OF r])
qed

theorem update_order_witness:
  "seller_create_stocks
     [\<lparr>Kod = CStr (ascii ''A2''), Kolichestvo = CStr (ascii ''1''), Tsena = CStr (ascii ''50.00'')\<rparr>,
      \<lparr>Kod = CStr (ascii ''B9''), Kolichestvo = CStr (ascii ''n/a''), Tsena = CNone\<rparr>,
      \<lparr>Kod = CStr (ascii ''A1''), Kolichestvo = CStr (ascii ''>10''), Tsena = CStr (ascii ''100.00'')\<rparr>]
     [ascii ''A1'', ascii ''A3'', ascii ''A2''] =
   ([ascii ''A3''],
    Inr [\<lparr>offer_id = ascii ''A2'', stock = 0\<rparr>, \<lparr>offer_id = ascii ''A1'', stock = 100\<rparr>,
         \<lparr>offer_id = ascii ''A3'', stock = 0\<rparr>])
   \<and> subseq [ascii ''A3''] [ascii ''A1'', ascii ''A3'', ascii ''A2'']
   \<and> seller_create_prices
     [\<lparr>Kod = CStr (ascii ''A2''), Kolichestvo = CStr (ascii ''1''), Tsena = CStr (ascii ''50.00'')\<rparr>,
      \<lparr>Kod = CStr (ascii ''B9''), Kolichestvo = CStr (ascii ''n/a''), Tsena = CNone\<rparr>,
      \<lparr>Kod = CStr (ascii ''A1''), Kolichestvo = CStr (ascii ''>10''), Tsena = CStr (ascii ''100.00'')\<rparr>]
     [ascii ''A1'', ascii ''A3'', ascii ''A2''] =
   Inr [\<lparr>auto_action_enabled = ascii ''UNKNOWN'', currency_code = ascii ''RUB'',
         price_offer_id = ascii ''A2'', old_price = ascii ''0'', price = ascii ''50''\<rparr>,
        \<lparr>auto_action_enabled = ascii ''UNKNOWN'', currency_code = ascii ''RUB'',
         price_offer_id = ascii ''A1'', old_price = ascii ''0'', price = ascii ''100''\<rparr>]
   \<and> map price_offer_id
       [\<lparr>auto_action_enabled = ascii ''UNKNOWN'', currency_code = ascii ''RUB'',
         price_offer_id = ascii ''A2'', old_price = ascii ''0'', price = ascii ''50''\<rparr>,
        \<lparr>auto_action_enabled = ascii ''UNKNOWN'', currency_code = ascii ''RUB'',
         price_offer_id = ascii ''A1'', old_price = ascii ''0'', price = ascii ''100''\<rparr>] =
     filter (\<lambda>c. c \<in> set [ascii ''A1'', ascii ''A3'', ascii ''A2''])
       (map (\<lambda>w. py_str (Kod w))
     [\<lparr>Kod = CStr (ascii ''A2''), Kolichestvo = CStr (ascii ''1''), Tsena = CStr (ascii ''50.00'')\<rparr>,
      \<lparr>Kod = CStr (ascii ''B9''), Kolichestvo = CStr (ascii ''n/a''), Tsena = CNone\<rparr>,
      \<lparr>Kod = CStr (ascii ''A1''), Kolichestvo = CStr (ascii ''>10''), Tsena = CStr (ascii ''100.00'')\<rparr>])"
proof -
  have s: "seller_create_stocks
     [\<lparr>Kod = CStr (ascii ''A2''), Kolichestvo = CStr (ascii ''1''), Tsena = CStr (ascii ''50.00'')\<rparr>,
      \<lparr>Kod = CStr (ascii ''B9''), Kolichestvo = CStr (ascii ''n/a''), Tsena = CNone\<rparr>,
      \<lparr>Kod = CStr (ascii ''A1''), Kolichestvo = CStr (ascii ''>10''), Tsena = CStr (ascii ''100.00'')\<rparr>]
     [ascii ''A1'', ascii ''A3'', ascii ''A2''] =
   ([ascii ''A3''],
    Inr [\<lparr>offer_id = ascii ''A2'', stock = 0\<rparr>, \<lparr>offer_id = ascii ''A1'', stock = 100\<rparr>,
         \<lparr>offer_id = ascii ''A3'', stock = 0\<rparr>])"
    by (simp add: seller_create_stocks_def stock_level_def ascii_def)
  have p: "seller_create_prices
     [\<lparr>Kod = CStr (ascii ''A2''), Kolichestvo = CStr (ascii ''1''), Tsena = CStr (ascii ''50.00'')\<rparr>,
      \<lparr>Kod = CStr (ascii ''B9''), Kolichestvo = CStr (ascii ''n/a''), Tsena = CNone\<rparr>,
      \<lparr>Kod = CStr (ascii ''A1''), Kolichestvo = CStr (ascii ''>10''), Tsena = CStr (ascii ''100.00'')\<rparr>]
     [ascii ''A1'', ascii ''A3'', ascii ''A2''] =
   Inr [\<lparr>auto_action_enabled = ascii ''UNKNOWN'', currency_code = ascii ''RUB'',
         price_offer_id = ascii ''A2'', old_price = ascii ''0'', price = ascii ''50''\<rparr>,
        \<lparr>auto_action_enabled = ascii ''UNKNOWN'', currency_code = ascii ''RUB'',
         price_offer_id = ascii ''A1'', old_price = ascii ''0'', price = ascii ''100''\<rparr>]"
    by (simp add: seller_create_prices_def price_conversion_eq ascii_def)
  from s p
    update_order [of
      "[\<lparr>Kod = CStr (ascii ''A2''), Kolichestvo = CStr (ascii ''1''), Tsena = CStr (ascii ''50.00'')\<rparr>,
      \<lparr>Kod = CStr (ascii ''B9''), Kolichestvo = CStr (ascii ''n/a''), Tsena = CNone\<rparr>,
      \<lparr>Kod = CStr (ascii ''A1''), Kolichestvo = CStr (ascii ''>10''), Tsena = CStr (ascii ''100.00'')\<rparr>]"
      "[ascii ''A1'', ascii ''A3'', ascii ''A2'']" "[ascii ''A3'']"
      "[\<lparr>offer_id = ascii ''A2'', stock = 0\<rparr>, \<lparr>offer_id = ascii ''A1'', stock = 100\<rparr>,
         \<lparr>offer_id = ascii ''A3'', stock = 0\<rparr>]"
      "[\<lparr>auto_action_enabled = ascii ''UNKNOWN'', currency_code = ascii ''RUB'',
         price_offer_id = ascii ''A2'', old_price = ascii ''0'', price = ascii ''50''\<rparr>,
        \<lparr>auto_action_enabled = ascii ''UNKNOWN'', currency_code = ascii ''RUB'',
         price_offer_id = ascii ''A1'', old_price = ascii ''0'', price = ascii ''100''\<rparr>]"]
  show ?thesis
    by blast
qed

subsection \<open>Duplicate codes\<close>

text \<open>
  Claim C10, as amended. Let a code occur once among the identifiers and be the code of
  two rows of the feed or more, and take the first of these rows. Whenever
  \<open>create_stocks\<close> returns, the only stock update that bears the code is the one with the
  normalised quantity of that first row: exactly one update bears the code, and the code
  is no longer in the list of identifiers, so the later rows match nothing. If the rows
  before the first one are processed without an error and the quantity of the first one
  does not normalise, \<open>create_stocks\<close> raises that error. Whenever \<open>create_prices\<close>
  returns, it has one price update for each of these rows, so at least two bear the code.
\<close>

theorem duplicate_codes:
  assumes "count_list I c = 1"
    and "2 \<le> count_list (map (\<lambda>w. py_str (Kod w)) F) c"
  shows "(\<exists>pre w post.
            F = pre @ w # post \<and> py_str (Kod w) = c
            \<and> c \<notin> set (map (\<lambda>w. py_str (Kod w)) pre)
            \<and> c \<in> set (map (\<lambda>w. py_str (Kod w)) post)
            \<and> (seller_create_stocks F I = (I', Inr stocks) \<longrightarrow>
                 (\<exists>n. stock_level (Kolichestvo w) = Inr n
                      \<and> filter (\<lambda>u. offer_id u = c) stocks = [\<lparr>offer_id = c, stock = n\<rparr>]))
            \<and> (\<forall>J done e.
                  seller_create_stocks pre I = (J, Inr done) \<and> stock_level (Kolichestvo w) = Inl e \<longrightarrow>
                  seller_create_stocks F I = (J, Inl e)))
       \<and> (seller_create_stocks F I = (I', Inr stocks) \<longrightarrow>
            count_list (map offer_id stocks) c = 1 \<and> c \<notin> set I')
       \<and> (seller_create_prices F I = Inr prices \<longrightarrow>
            count_list (map price_offer_id prices) c = count_list (map (\<lambda>w. py_str (Kod w)) F) c
            \<and> 2 \<le> count_list (map price_offer_id prices) c)"
proof -
  let ?kod = "\<lambda>w. py_str (Kod w)"
  from assms(2) have inF: "c \<in> set (map ?kod F)"
    by (cases "c \<in> set (map ?kod F)") (simp_all add: count_list_0_iff)
  from assms(1) have inI: "c \<in> set I"
    by (cases "c \<in> set I") (simp_all add: count_list_0_iff)
  from first_row [OF inF] obtain pre w post where
    F: "F = pre @ w # post" and w: "?kod w = c" and pre: "c \<notin> set (map ?kod pre)"
    by blast
  from pre have "count_list (map ?kod pre) c = 0"
    by (simp only: count_list_0_iff not_False_eq_True)
  with assms(2) F w have "1 \<le> count_list (map ?kod post) c"
    by simp
  then have post: "c \<in> set (map ?kod post)"
    by (cases "c \<in> set (map ?kod post)") (simp_all add: count_list_0_iff)
  have first: "seller_create_stocks F I = (I', Inr stocks) \<longrightarrow>
                 (\<exists>n. stock_level (Kolichestvo w) = Inr n
                      \<and> filter (\<lambda>u. offer_id u = c) stocks = [\<lparr>offer_id = c, stock = n\<rparr>])"
    using first_row_stock [OF assms(1) F w pre] by blast
  have fails: "\<forall>J done e.
                  seller_create_stocks pre I = (J, Inr done) \<and> stock_level (Kolichestvo w) = Inl e \<longrightarrow>
                  seller_create_stocks F I = (J, Inl e)"
    unfolding F using first_row_fails [OF inI w pre] by blast
  from F w pre post first fails
  have a: "\<exists>pre w post.
            F = pre @ w # post \<and> ?kod w = c
            \<and> c \<notin> set (map ?kod pre)
            \<and> c \<in> set (map ?kod post)
            \<and> (seller_create_stocks F I = (I', Inr stocks) \<longrightarrow>
                 (\<exists>n. stock_level (Kolichestvo w) = Inr n
                      \<and> filter (\<lambda>u. offer_id u = c) stocks = [\<lparr>offer_id = c, stock = n\<rparr>]))
            \<and> (\<forall>J done e.
                  seller_create_stocks pre I = (J, Inr done) \<and> stock_level (Kolichestvo w) = Inl e \<longrightarrow>
                  seller_create_stocks F I = (J, Inl e))"
    by blast
  have b: "seller_create_stocks F I = (I', Inr stocks) \<longrightarrow>
            count_list (map offer_id stocks) c = 1 \<and> c \<notin> set I'"
  proof (intro conjI impI)
    assume r: "seller_create_stocks F I = (I', Inr stocks)"
    have "count (mset (map offer_id stocks)) c = count (mset I) c"
      by (simp only: seller_stocks_mset [OF r])
    then have "count_list (map offer_id stocks) c = count_list I c"
      by (simp only: count_mset)
    with assms(1) show "count_list (map offer_id stocks) c = 1"
      by simp
    from inF inI set_matched_rows [of F I]
    have "c \<in> set (map ?kod (matched_rows F I))"
      by blast
    then have "1 \<le> count_list (map ?kod (matched_rows F I)) c"
      using count_list_pos [of c "map ?kod (matched_rows F I)"] by simp
    moreover have "count_list (map ?kod (matched_rows F I)) c +
                   count_list (leftover_ids F I) c = count_list I c"
    proof -
      have "count (mset (map ?kod (matched_rows F I)) + mset (leftover_ids F I)) c =
            count (mset I) c"
        by (simp only: mset_matched_leftover)
      then show ?thesis
        by (simp only: plus_multiset.rep_eq count_mset)
    qed
    ultimately have "count_list (leftover_ids F I) c = 0"
      using assms(1) by simp
    then show "c \<notin> set I'"
      using seller_create_stocks_returns(1) [OF r] by (simp add: count_list_0_iff)
  qed
  have p: "seller_create_prices F I = Inr prices \<longrightarrow>
            count_list (map price_offer_id prices) c = count_list (map ?kod F) c
            \<and> 2 \<le> count_list (map price_offer_id prices) c"
  proof (intro conjI impI)
    assume r: "seller_create_prices F I = Inr prices"
    from inI show e: "count_list (map price_offer_id prices) c = count_list (map ?kod F) c"
      by (simp add: seller_prices_ids [OF r] count_list_filter)
    from e assms(2) show "2 \<le> count_list (map price_offer_id prices) c"
      by simp
  qed
  from a b p show ?thesis
    by (intro conjI)
qed

theorem duplicate_codes_witness:
  "count_list [ascii ''A1''] (ascii ''A1'') = 1
   \<and> 2 \<le> count_list (map (\<lambda>w. py_str (Kod w))
     [\<lparr>Kod = CStr (ascii ''A1''), Kolichestvo = CStr (ascii ''5''), Tsena = CStr (ascii ''10.00'')\<rparr>,
      \<lparr>Kod = CStr (ascii ''A1''), Kolichestvo = CStr (ascii ''7''), Tsena = CStr (ascii ''12.00'')\<rparr>]) (ascii ''A1'')
   \<and> seller_create_stocks
     [\<lparr>Kod = CStr (ascii ''A1''), Kolichestvo = CStr (ascii ''5''), Tsena = CStr (ascii ''10.00'')\<rparr>,
      \<lparr>Kod = CStr (ascii ''A1''), Kolichestvo = CStr (ascii ''7''), Tsena = CStr (ascii ''12.00'')\<rparr>]
     [ascii ''A1''] = ([], Inr [\<lparr>offer_id = ascii ''A1'', stock = 5\<rparr>])
   \<and> stock_level (CStr (ascii ''5'')) = Inr 5
   \<and> filter (\<lambda>u. offer_id u = ascii ''A1'') [\<lparr>offer_id = ascii ''A1'', stock = 5\<rparr>] =
       [\<lparr>offer_id = ascii ''A1'', stock = 5\<rparr>]
   \<and> seller_create_prices
     [\<lparr>Kod = CStr (ascii ''A1''), Kolichestvo = CStr (ascii ''5''), Tsena = CStr (ascii ''10.00'')\<rparr>,
      \<lparr>Kod = CStr (ascii ''A1''), Kolichestvo = CStr (ascii ''7''), Tsena = CStr (ascii ''12.00'')\<rparr>]
     [ascii ''A1''] =
   Inr [\<lparr>auto_action_enabled = ascii ''UNKNOWN'', currency_code = ascii ''RUB'',
         price_offer_id = ascii ''A1'', old_price = ascii ''0'', price = ascii ''10''\<rparr>,
        \<lparr>auto_action_enabled = ascii ''UNKNOWN'', currency_code = ascii ''RUB'',
         price_offer_id = ascii ''A1'', old_price = ascii ''0'', price = ascii ''12''\<rparr>]
   \<and> count_list (map price_offer_id
       [\<lparr>auto_action_enabled = ascii ''UNKNOWN'', currency_code = ascii ''RUB'',
         price_offer_id = ascii ''A1'', old_price = ascii ''0'', price = ascii ''10''\<rparr>,
        \<lparr>auto_action_enabled = ascii ''UNKNOWN'', currency_code = ascii ''RUB'',
         price_offer_id = ascii ''A1'', old_price = ascii ''0'', price = ascii ''12''\<rparr>]) (ascii ''A1'') =
     count_list (map (\<lambda>w. py_str (Kod w))
     [\<lparr>Kod = CStr (ascii ''A1''), Kolichestvo = CStr (ascii ''5''), Tsena = CStr (ascii ''10.00'')\<rparr>,
      \<lparr>Kod = CStr (ascii ''A1''), Kolichestvo = CStr (ascii ''7''), Tsena = CStr (ascii ''12.00'')\<rparr>]) (ascii ''A1'')"
proof -
  have c: "count_list [ascii ''A1''] (ascii ''A1'') = 1"
    by simp
  have f: "2 \<le> count_list (map (\<lambda>w. py_str (Kod w))
     [\<lparr>Kod = CStr (ascii ''A1''), Kolichestvo = CStr (ascii ''5''), Tsena = CStr (ascii ''10.00'')\<rparr>,
      \<lparr>Kod = CStr (ascii ''A1''), Kolichestvo = CStr (ascii ''7''), Tsena = CStr (ascii ''12.00'')\<rparr>]) (ascii ''A1'')"
    by simp
  have n: "int_of_text (ascii ''5'') = Inr 5"
    by (simp add: int_of_text_def strip_def is_space_def ascii_def digit_value_def digit_zeros_def
          int_max_str_digits_def)
  have ne: "ascii ''5'' \<noteq> ascii ''>10''" "ascii ''5'' \<noteq> ascii ''1''"
    by (simp_all add: ascii_def)
  have q: "stock_level (CStr (ascii ''5'')) = Inr 5"
    by (simp add: stock_level_text n ne)
  have s: "seller_create_stocks
     [\<lparr>Kod = CStr (ascii ''A1''), Kolichestvo = CStr (ascii ''5''), Tsena = CStr (ascii ''10.00'')\<rparr>,
      \<lparr>Kod = CStr (ascii ''A1''), Kolichestvo = CStr (ascii ''7''), Tsena = CStr (ascii ''12.00'')\<rparr>]
     [ascii ''A1''] = ([], Inr [\<lparr>offer_id = ascii ''A1'', stock = 5\<rparr>])"
    by (simp add: seller_create_stocks_def q)
  have p: "seller_create_prices
     [\<lparr>Kod = CStr (ascii ''A1''), Kolichestvo = CStr (ascii ''5''), Tsena = CStr (ascii ''10.00'')\<rparr>,
      \<lparr>Kod = CStr (ascii ''A1''), Kolichestvo = CStr (ascii ''7''), Tsena = CStr (ascii ''12.00'')\<rparr>]
     [ascii ''A1''] =
   Inr [\<lparr>auto_action_enabled = ascii ''UNKNOWN'', currency_code = ascii ''RUB'',
         price_offer_id = ascii ''A1'', old_price = ascii ''0'', price = ascii ''10''\<rparr>,
        \<lparr>auto_action_enabled = ascii ''UNKNOWN'', currency_code = ascii ''RUB'',
         price_offer_id = ascii ''A1'', old_price = ascii ''0'', price = ascii ''12''\<rparr>]"
    by (simp add: seller_create_prices_def price_conversion_eq ascii_def)
  have t: "filter (\<lambda>u. offer_id u = ascii ''A1'') [\<lparr>offer_id = ascii ''A1'', stock = 5\<rparr>] =
       [\<lparr>offer_id = ascii ''A1'', stock = 5\<rparr>]"
    by simp
  from c f s p q t
    duplicate_codes [OF c f, where I' = "[]" and stocks = "[\<lparr>offer_id = ascii ''A1'', stock = 5\<rparr>]"
      and prices = "[\<lparr>auto_action_enabled = ascii ''UNKNOWN'', currency_code = ascii ''RUB'',
         price_offer_id = ascii ''A1'', old_price = ascii ''0'', price = ascii ''10''\<rparr>,
        \<lparr>auto_action_enabled = ascii ''UNKNOWN'', currency_code = ascii ''RUB'',
         price_offer_id = ascii ''A1'', old_price = ascii ''0'', price = ascii ''12''\<rparr>]"]
  show ?thesis
    by blast
qed

text \<open>
  As first stated the claim fails when the first of the two rows carries a quantity that
  is not a number: \<open>create_stocks\<close> raises and has no stock update for the code.
\<close>

theorem duplicate_codes_counterexample:
  "seller_create_stocks
     [\<lparr>Kod = CStr (ascii ''A1''), Kolichestvo = CStr (ascii ''soon''), Tsena = CStr (ascii ''10.00'')\<rparr>,
      \<lparr>Kod = CStr (ascii ''A1''), Kolichestvo = CStr (ascii ''7''), Tsena = CStr (ascii ''12.00'')\<rparr>]
     [ascii ''A1''] = ([ascii ''A1''], Inl ValueError)"
  by (simp add: seller_create_stocks_def stock_level_def ascii_def int_of_text_def strip_def
        is_space_def digit_value_def digit_zeros_def)

subsection \<open>Quantities\<close>

text \<open>
  Claim C4. The quantity texts \<open>100\<close>, \<open>>10\<close>, \<open>1\<close> and \<open>0\<close> normalise to 100, 100, 0 and
  0, and a quantity that normalises to \<open>n\<close> gives the stock update of its row the
  quantity \<open>n\<close>, in both marketplaces. When a row is reached with its code among the
  identifiers still listed, and its quantity is a text that is neither \<open>>10\<close> nor \<open>1\<close>
  and that \<open>int\<close> does not accept, \<open>create_stocks\<close> of both marketplaces raises
  \<open>ValueError\<close>: no quantity is made up in its place. (A row whose code is not listed is
  skipped, and its quantity is never read.)
\<close>

theorem quantity_normalisation:
  "stock_level (CStr (ascii ''100'')) = Inr 100
   \<and> stock_level (CStr (ascii ''>10'')) = Inr 100
   \<and> stock_level (CStr (ascii ''1'')) = Inr 0
   \<and> stock_level (CStr (ascii ''0'')) = Inr 0
   \<and> (stock_level c = Inr n \<longrightarrow>
        seller_create_stocks [\<lparr>Kod = k, Kolichestvo = c, Tsena = p\<rparr>] [py_str k] =
          ([], Inr [\<lparr>offer_id = py_str k, stock = n\<rparr>])
        \<and> market_create_stocks [\<lparr>Kod = k, Kolichestvo = c, Tsena = p\<rparr>] [py_str k] warehouse_id date =
          ([], Inr [\<lparr>sku = py_str k, warehouseId = warehouse_id,
                     m_items = [\<lparr>m_count = n, m_type = ascii ''FIT'', updatedAt = date\<rparr>]\<rparr>]))
   \<and> (q \<noteq> ascii ''>10'' \<and> q \<noteq> ascii ''1'' \<and> (\<forall>n. int_of_text q \<noteq> Inr n)
        \<and> Kolichestvo w = CStr q
        \<and> seller_create_stocks pre I = (J, Inr done) \<and> py_str (Kod w) \<in> set J \<longrightarrow>
        seller_create_stocks (pre @ w # post) I = (J, Inl ValueError)
        \<and> market_create_stocks (pre @ w # post) I warehouse_id date = (J, Inl ValueError))"
proof (intro conjI impI)
  show "stock_level (CStr (ascii ''100'')) = Inr 100"
    and "stock_level (CStr (ascii ''>10'')) = Inr 100"
    and "stock_level (CStr (ascii ''1'')) = Inr 0"
    and "stock_level (CStr (ascii ''0'')) = Inr 0"
    by (rule stock_level_examples)+
next
  assume c: "stock_level c = Inr n"
  show s: "seller_create_stocks [\<lparr>Kod = k, Kolichestvo = c, Tsena = p\<rparr>] [py_str k] =
          ([], Inr [\<lparr>offer_id = py_str k, stock = n\<rparr>])"
    by (rule single_row_stocks [OF c])
  show "market_create_stocks [\<lparr>Kod = k, Kolichestvo = c, Tsena = p\<rparr>] [py_str k] warehouse_id date =
          ([], Inr [\<lparr>sku = py_str k, warehouseId = warehouse_id,
                     m_items = [\<lparr>m_count = n, m_type = ascii ''FIT'', updatedAt = date\<rparr>]\<rparr>])"
    by (simp add: market_create_stocks_sim s to_sku_def)
next
  assume a: "q \<noteq> ascii ''>10'' \<and> q \<noteq> ascii ''1'' \<and> (\<forall>n. int_of_text q \<noteq> Inr n)
        \<and> Kolichestvo w = CStr q
        \<and> seller_create_stocks pre I = (J, Inr done) \<and> py_str (Kod w) \<in> set J"
  then obtain e where "int_of_text q = Inl e"
    by (cases "int_of_text q") auto
  with int_of_text_error [of q e] have "int_of_text q = Inl ValueError"
    by simp
  with a have f: "stock_level (Kolichestvo w) = Inl ValueError"
    by (simp add: stock_level_text)
  from a have pre: "seller_create_stocks pre I = (J, Inr done)" and w: "py_str (Kod w) \<in> set J"
    by simp_all
  show s: "seller_create_stocks (pre @ w # post) I = (J, Inl ValueError)"
    by (rule seller_create_stocks_fails [OF pre w f])
  show "market_create_stocks (pre @ w # post) I warehouse_id date = (J, Inl ValueError)"
    by (simp add: market_create_stocks_sim s)
qed

theorem quantity_normalisation_witness:
  "ascii ''5 pcs'' \<noteq> ascii ''>10'' \<and> ascii ''5 pcs'' \<noteq> ascii ''1''
   \<and> int_of_text (ascii ''5 pcs'') = Inl ValueError
   \<and> seller_create_stocks
        [\<lparr>Kod = CStr (ascii ''A1''), Kolichestvo = CStr (ascii ''>10''), Tsena = CStr (ascii ''100.00'')\<rparr>]
        [ascii ''A1'', ascii ''A2''] =
      ([ascii ''A2''], Inr [\<lparr>offer_id = ascii ''A1'', stock = 100\<rparr>, \<lparr>offer_id = ascii ''A2'', stock = 0\<rparr>])
   \<and> seller_create_stocks
        ([\<lparr>Kod = CStr (ascii ''A1''), Kolichestvo = CStr (ascii ''>10''), Tsena = CStr (ascii ''100.00'')\<rparr>] @
         \<lparr>Kod = CStr (ascii ''A2''), Kolichestvo = CStr (ascii ''5 pcs''), Tsena = CStr (ascii ''50.00'')\<rparr> # [])
        [ascii ''A1'', ascii ''A2''] = ([ascii ''A2''], Inl ValueError)
   \<and> seller_create_stocks
        [\<lparr>Kod = CInt 7, Kolichestvo = CStr (ascii ''100''), Tsena = CNone\<rparr>] [py_str (CInt 7)] =
      ([], Inr [\<lparr>offer_id = py_str (CInt 7), stock = 100\<rparr>])"
proof -
  have n: "int_of_text (ascii ''5 pcs'') = Inl ValueError"
    by (simp add: int_of_text_def strip_def is_space_def ascii_def digit_value_def digit_zeros_def)
  have d: "ascii ''5 pcs'' \<noteq> ascii ''>10'' \<and> ascii ''5 pcs'' \<noteq> ascii ''1''"
    by (simp add: ascii_def)
  have p: "seller_create_stocks
        [\<lparr>Kod = CStr (ascii ''A1''), Kolichestvo = CStr (ascii ''>10''), Tsena = CStr (ascii ''100.00'')\<rparr>]
        [ascii ''A1'', ascii ''A2''] =
      ([ascii ''A2''], Inr [\<lparr>offer_id = ascii ''A1'', stock = 100\<rparr>, \<lparr>offer_id = ascii ''A2'', stock = 0\<rparr>])"
    by (simp add: seller_create_stocks_def stock_level_def ascii_def)
  from quantity_normalisation [of "CStr (ascii ''100'')" 100 "CInt 7" CNone _ _ "ascii ''5 pcs''"
      "\<lparr>Kod = CStr (ascii ''A2''), Kolichestvo = CStr (ascii ''5 pcs''), Tsena = CStr (ascii ''50.00'')\<rparr>"
      "[\<lparr>Kod = CStr (ascii ''A1''), Kolichestvo = CStr (ascii ''>10''), Tsena = CStr (ascii ''100.00'')\<rparr>]"
      "[ascii ''A1'', ascii ''A2'']" "[ascii ''A2'']"
      "[\<lparr>offer_id = ascii ''A1'', stock = 100\<rparr>, \<lparr>offer_id = ascii ''A2'', stock = 0\<rparr>]" "[]"]
    n d p
  show ?thesis
    by simp
qed

subsection \<open>The list of identifiers\<close>

text \<open>
  \<open>create_stocks\<close> works on the caller's list of identifiers itself, not on a copy: when
  it returns, the list holds what is left once every row of the feed has removed the
  first occurrence of its code, in the order the list had. It is unchanged only if no
  row carries a listed code. This holds for both marketplaces. The feed is only read: no
  statement of the source writes to it, and the model passes it as an argument that is
  not returned.
\<close>

lemma identifiers_left:
  "(seller_create_stocks F I = (I', Inr stocks) \<longrightarrow>
      I' = fold (\<lambda>watch. remove1 (py_str (Kod watch))) F I
      \<and> subseq I' I
      \<and> (I' = I \<longleftrightarrow> set I \<inter> set (map (\<lambda>w. py_str (Kod w)) F) = {}))
   \<and> (market_create_stocks F I warehouse_id date = (I', Inr skus) \<longrightarrow>
      I' = fold (\<lambda>watch. remove1 (py_str (Kod watch))) F I
      \<and> subseq I' I
      \<and> (I' = I \<longleftrightarrow> set I \<inter> set (map (\<lambda>w. py_str (Kod w)) F) = {}))"
proof -
  have seller: "I' = fold (\<lambda>watch. remove1 (py_str (Kod watch))) F I
      \<and> subseq I' I
      \<and> (I' = I \<longleftrightarrow> set I \<inter> set (map (\<lambda>w. py_str (Kod w)) F) = {})"
    if r: "seller_create_stocks F I = (I', Inr ss)" for ss
  proof -
    have i: "I' = leftover_ids F I"
      by (rule seller_create_stocks_returns(1) [OF r])
    show ?thesis
      unfolding i using subseq_leftover_ids [of F I] leftover_same_iff [of F I]
      by (simp add: leftover_ids_def)
  qed
  have market: "\<exists>ss. seller_create_stocks F I = (I', Inr ss)"
    if m: "market_create_stocks F I warehouse_id date = (I', Inr skus)"
  proof -
    obtain K r where s: "seller_create_stocks F I = (K, r)"
      by (cases "seller_create_stocks F I") blast
    with m have "K = I'" and "map_sum (\<lambda>e. e) (map (to_sku warehouse_id date)) r = Inr skus"
      by (simp_all add: market_create_stocks_sim)
    then show ?thesis
      using s by (cases r) auto
  qed
  from seller market show ?thesis
    by blast
qed

text \<open>
  Claim C3 does not hold of the code. There is no working copy: \<open>offer_ids.remove\<close>
  (seller.py line 201, market.py line 193) acts on the list the caller passed. On a feed
  with the one row \<open>A1\<close> and the identifiers \<open>A1\<close> and \<open>A2\<close>, the caller's list holds only
  \<open>A2\<close> once \<open>create_stocks\<close> of either module has returned. \<open>main\<close> of seller.py (lines
  316 to 323) hands that same list on to \<open>create_prices\<close>, which then finds no code of the
  feed in it and prices nothing, where on the list as it was it prices \<open>A1\<close>. The last
  two lines say the same of the two calls of \<open>main\<close> on one reference of the store.
\<close>

theorem create_stocks_consumes_identifiers:
  "seller_create_stocks
     [\<lparr>Kod = CStr (ascii ''A1''), Kolichestvo = CStr (ascii ''>10''), Tsena = CStr (ascii ''100.00'')\<rparr>]
     [ascii ''A1'', ascii ''A2''] =
   ([ascii ''A2''], Inr [\<lparr>offer_id = ascii ''A1'', stock = 100\<rparr>, \<lparr>offer_id = ascii ''A2'', stock = 0\<rparr>])
   \<and> [ascii ''A2''] \<noteq> [ascii ''A1'', ascii ''A2'']
   \<and> seller_create_prices
     [\<lparr>Kod = CStr (ascii ''A1''), Kolichestvo = CStr (ascii ''>10''), Tsena = CStr (ascii ''100.00'')\<rparr>]
     [ascii ''A2''] = Inr []
   \<and> seller_create_prices
     [\<lparr>Kod = CStr (ascii ''A1''), Kolichestvo = CStr (ascii ''>10''), Tsena = CStr (ascii ''100.00'')\<rparr>]
     [ascii ''A1'', ascii ''A2''] =
     Inr [\<lparr>auto_action_enabled = ascii ''UNKNOWN'', currency_code = ascii ''RUB'',
           price_offer_id = ascii ''A1'', old_price = ascii ''0'', price = ascii ''100''\<rparr>]
   \<and> market_create_stocks
     [\<lparr>Kod = CStr (ascii ''A1''), Kolichestvo = CStr (ascii ''>10''), Tsena = CStr (ascii ''100.00'')\<rparr>]
     [ascii ''A1'', ascii ''A2''] (ascii ''W'') (ascii ''2024-01-01T00:00:00Z'') =
   ([ascii ''A2''],
    Inr [\<lparr>sku = ascii ''A1'', warehouseId = ascii ''W'',
          m_items = [\<lparr>m_count = 100, m_type = ascii ''FIT'', updatedAt = ascii ''2024-01-01T00:00:00Z''\<rparr>]\<rparr>,
         \<lparr>sku = ascii ''A2'', warehouseId = ascii ''W'',
          m_items = [\<lparr>m_count = 0, m_type = ascii ''FIT'', updatedAt = ascii ''2024-01-01T00:00:00Z''\<rparr>]\<rparr>])
   \<and> objects (snd (seller_create_stocks_at
       [\<lparr>Kod = CStr (ascii ''A1''), Kolichestvo = CStr (ascii ''>10''), Tsena = CStr (ascii ''100.00'')\<rparr>] 0
       \<lparr>objects = (\<lambda>a. [])(0 := [ascii ''A1'', ascii ''A2'']), next_ref = 1\<rparr>)) 0 = [ascii ''A2'']
   \<and> fst (seller_create_prices_at
       [\<lparr>Kod = CStr (ascii ''A1''), Kolichestvo = CStr (ascii ''>10''), Tsena = CStr (ascii ''100.00'')\<rparr>] 0
       (snd (seller_create_stocks_at
          [\<lparr>Kod = CStr (ascii ''A1''), Kolichestvo = CStr (ascii ''>10''), Tsena = CStr (ascii ''100.00'')\<rparr>] 0
          \<lparr>objects = (\<lambda>a. [])(0 := [ascii ''A1'', ascii ''A2'']), next_ref = 1\<rparr>))) = Inr []"
  by (simp add: seller_create_stocks_def market_create_stocks_def seller_create_prices_def
        seller_create_stocks_at_def seller_create_prices_at_def
        price_conversion_eq stock_level_def ascii_def)

subsection \<open>Repeated calls\<close>

text \<open>
  Claim C2, as amended. Take the list of identifiers behind a reference of the store,
  and call \<open>create_stocks\<close>, \<open>create_prices\<close>, \<open>create_stocks\<close> and \<open>create_prices\<close> in turn,
  each on a fresh copy of that list. For seller.py the second pair of outcomes is the
  first pair, and so it is for \<open>create_prices\<close> of market.py; the caller's list is as it
  was. \<open>create_stocks\<close> of market.py reads the clock, so its two outcomes agree in
  everything except the field \<open>updatedAt\<close>, which carries the reading of each call: the
  second outcome is the first with the second date written into every entry. The two
  coincide when both calls read the same date and when the call raises; they differ
  when the dates differ, the list of identifiers is not empty and the call returns.
  Apart from that field, and from the names of the fields, the outcome of
  \<open>create_stocks\<close> of market.py is that of \<open>create_stocks\<close> of seller.py.
\<close>

theorem repeated_reconcile:
  assumes a: "a < next_ref s"
  shows
   "(let (stocks1, s1) = on_copy (seller_create_stocks_at F) a s;
         (prices1, s2) = on_copy (seller_create_prices_at F) a s1;
         (stocks2, s3) = on_copy (seller_create_stocks_at F) a s2;
         (prices2, s4) = on_copy (seller_create_prices_at F) a s3
     in stocks2 = stocks1 \<and> prices2 = prices1 \<and> objects s4 a = objects s a)
    \<and> (let (stocks1, s1) = on_copy (market_create_stocks_at F warehouse_id date1) a s;
            (prices1, s2) = on_copy (market_create_prices_at F) a s1;
            (stocks2, s3) = on_copy (market_create_stocks_at F warehouse_id date2) a s2;
            (prices2, s4) = on_copy (market_create_prices_at F) a s3
        in stocks2 = map_sum (\<lambda>e. e) (map (restamp date2)) stocks1
           \<and> prices2 = prices1 \<and> objects s4 a = objects s a
           \<and> (date1 = date2 \<longrightarrow> stocks2 = stocks1)
           \<and> ((\<exists>e. stocks1 = Inl e) \<longrightarrow> stocks2 = stocks1)
           \<and> (date1 \<noteq> date2 \<and> objects s a \<noteq> [] \<and> (\<exists>skus. stocks1 = Inr skus) \<longrightarrow> stocks2 \<noteq> stocks1))
    \<and> market_create_stocks F I warehouse_id date2 =
         (case market_create_stocks F I warehouse_id date1 of
            (I', r) \<Rightarrow> (I', map_sum (\<lambda>e. e) (map (restamp date2)) r))
    \<and> market_create_stocks F I warehouse_id date1 =
         (case seller_create_stocks F I of
            (I', r) \<Rightarrow> (I', map_sum (\<lambda>e. e) (map (to_sku warehouse_id date1)) r))"
proof -
  have seller: "(let (stocks1, s1) = on_copy (seller_create_stocks_at F) a s;
         (prices1, s2) = on_copy (seller_create_prices_at F) a s1;
         (stocks2, s3) = on_copy (seller_create_stocks_at F) a s2;
         (prices2, s4) = on_copy (seller_create_prices_at F) a s3
     in stocks2 = stocks1 \<and> prices2 = prices1 \<and> objects s4 a = objects s a)"
  proof -
    obtain stocks1 s1 where c1: "on_copy (seller_create_stocks_at F) a s = (stocks1, s1)"
      by (cases "on_copy (seller_create_stocks_at F) a s") blast
    obtain prices1 s2 where c2: "on_copy (seller_create_prices_at F) a s1 = (prices1, s2)"
      by (cases "on_copy (seller_create_prices_at F) a s1") blast
    obtain stocks2 s3 where c3: "on_copy (seller_create_stocks_at F) a s2 = (stocks2, s3)"
      by (cases "on_copy (seller_create_stocks_at F) a s2") blast
    obtain prices2 s4 where c4: "on_copy (seller_create_prices_at F) a s3 = (prices2, s4)"
      by (cases "on_copy (seller_create_prices_at F) a s3") blast
    from on_copy_seller_stocks [OF a, of F] c1
    have r1: "stocks1 = snd (seller_create_stocks F (objects s a))"
      and o1: "objects s1 a = objects s a" and a1: "a < next_ref s1"
      using a by simp_all
    from on_copy_seller_prices [OF a1, of F] c2 o1
    have r2: "prices1 = seller_create_prices F (objects s a)"
      and o2: "objects s2 a = objects s a" and a2: "a < next_ref s2"
      using a1 by simp_all
    from on_copy_seller_stocks [OF a2, of F] c3 o2
    have r3: "stocks2 = snd (seller_create_stocks F (objects s a))"
      and o3: "objects s3 a = objects s a" and a3: "a < next_ref s3"
      using a2 by simp_all
    from on_copy_seller_prices [OF a3, of F] c4 o3
    have r4: "prices2 = seller_create_prices F (objects s a)"
      and o4: "objects s4 a = objects s a"
      by simp_all
    from r1 r2 r3 r4 o4 show ?thesis
      by (simp add: c1 c2 c3 c4)
  qed
  have market: "(let (stocks1, s1) = on_copy (market_create_stocks_at F warehouse_id date1) a s;
            (prices1, s2) = on_copy (market_create_prices_at F) a s1;
            (stocks2, s3) = on_copy (market_create_stocks_at F warehouse_id date2) a s2;
            (prices2, s4) = on_copy (market_create_prices_at F) a s3
        in stocks2 = map_sum (\<lambda>e. e) (map (restamp date2)) stocks1
           \<and> prices2 = prices1 \<and> objects s4 a = objects s a
           \<and> (date1 = date2 \<longrightarrow> stocks2 = stocks1)
           \<and> ((\<exists>e. stocks1 = Inl e) \<longrightarrow> stocks2 = stocks1)
           \<and> (date1 \<noteq> date2 \<and> objects s a \<noteq> [] \<and> (\<exists>skus. stocks1 = Inr skus) \<longrightarrow> stocks2 \<noteq> stocks1))"
  proof -
    let ?I = "objects s a"
    obtain stocks1 s1 where c1: "on_copy (market_create_stocks_at F warehouse_id date1) a s = (stocks1, s1)"
      by (cases "on_copy (market_create_stocks_at F warehouse_id date1) a s") blast
    obtain prices1 s2 where c2: "on_copy (market_create_prices_at F) a s1 = (prices1, s2)"
      by (cases "on_copy (market_create_prices_at F) a s1") blast
    obtain stocks2 s3 where c3: "on_copy (market_create_stocks_at F warehouse_id date2) a s2 = (stocks2, s3)"
      by (cases "on_copy (market_create_stocks_at F warehouse_id date2) a s2") blast
    obtain prices2 s4 where c4: "on_copy (market_create_prices_at F) a s3 = (prices2, s4)"
      by (cases "on_copy (market_create_prices_at F) a s3") blast
    from on_copy_market_stocks [OF a, of F warehouse_id date1] c1
    have r1: "stocks1 = snd (market_create_stocks F ?I warehouse_id date1)"
      and o1: "objects s1 a = ?I" and a1: "a < next_ref s1"
      using a by simp_all
    from on_copy_market_prices [OF a1, of F] c2 o1
    have r2: "prices1 = market_create_prices F ?I"
      and o2: "objects s2 a = ?I" and a2: "a < next_ref s2"
      using a1 by simp_all
    from on_copy_market_stocks [OF a2, of F warehouse_id date2] c3 o2
    have r3: "stocks2 = snd (market_create_stocks F ?I warehouse_id date2)"
      and o3: "objects s3 a = ?I" and a3: "a < next_ref s3"
      using a2 by simp_all
    from on_copy_market_prices [OF a3, of F] c4 o3
    have r4: "prices2 = market_create_prices F ?I"
      and o4: "objects s4 a = ?I"
      by simp_all
    obtain I' where m1: "market_create_stocks F ?I warehouse_id date1 = (I', stocks1)"
      using r1 by (cases "market_create_stocks F ?I warehouse_id date1") simp
    have m2: "market_create_stocks F ?I warehouse_id date2 =
              (I', map_sum (\<lambda>e. e) (map (restamp date2)) stocks1)"
      using market_stocks_restamp [of F ?I warehouse_id date2 date1] m1 by simp
    with r3 have e: "stocks2 = map_sum (\<lambda>e. e) (map (restamp date2)) stocks1"
      by simp
    have same: "stocks2 = stocks1" if "date1 = date2"
      using that r1 r3 by simp
    have err: "stocks2 = stocks1" if "\<exists>e. stocks1 = Inl e"
      using that e by auto
    have differ: "stocks2 \<noteq> stocks1"
      if d: "date1 \<noteq> date2 \<and> ?I \<noteq> [] \<and> (\<exists>skus. stocks1 = Inr skus)"
    proof
      assume eq: "stocks2 = stocks1"
      from d obtain skus where k: "stocks1 = Inr skus"
        by blast
      with m1 have "market_create_stocks F ?I warehouse_id date1 = (I', Inr skus)"
        by simp
      from market_stocks_dates [OF this, of date2] d
      have "market_create_stocks F ?I warehouse_id date2 \<noteq> (I', Inr skus)"
        by simp
      with m2 e eq k show False
        by simp
    qed
    from e r2 r4 o4 same err differ show ?thesis
      by (simp add: c1 c2 c3 c4)
  qed
  from seller market market_stocks_restamp [of F I warehouse_id date2 date1]
    market_create_stocks_sim [of F I warehouse_id date1]
  show ?thesis
    by (intro conjI)
qed

theorem repeated_reconcile_witness:
  "0 < next_ref \<lparr>objects = (\<lambda>a. [])(0 := [ascii ''A1'']), next_ref = 1\<rparr>
   \<and> fst (on_copy (seller_create_stocks_at
        [\<lparr>Kod = CStr (ascii ''A1''), Kolichestvo = CStr (ascii ''>10''), Tsena = CStr (ascii ''100.00'')\<rparr>]) 0
        \<lparr>objects = (\<lambda>a. [])(0 := [ascii ''A1'']), next_ref = 1\<rparr>) =
     Inr [\<lparr>offer_id = ascii ''A1'', stock = 100\<rparr>]
   \<and> fst (on_copy (market_create_stocks_at
        [\<lparr>Kod = CStr (ascii ''A1''), Kolichestvo = CStr (ascii ''>10''), Tsena = CStr (ascii ''100.00'')\<rparr>]
        (ascii ''W'') (ascii ''2024-01-01T00:00:00Z'')) 0
        \<lparr>objects = (\<lambda>a. [])(0 := [ascii ''A1'']), next_ref = 1\<rparr>) =
     Inr [\<lparr>sku = ascii ''A1'', warehouseId = ascii ''W'',
           m_items = [\<lparr>m_count = 100, m_type = ascii ''FIT'', updatedAt = ascii ''2024-01-01T00:00:00Z''\<rparr>]\<rparr>]
   \<and> market_create_stocks
        [\<lparr>Kod = CStr (ascii ''A1''), Kolichestvo = CStr (ascii ''>10''), Tsena = CStr (ascii ''100.00'')\<rparr>]
        [ascii ''A1''] (ascii ''W'') (ascii ''2024-01-01T00:00:01Z'') =
     ([], Inr [\<lparr>sku = ascii ''A1'', warehouseId = ascii ''W'',
           m_items = [\<lparr>m_count = 100, m_type = ascii ''FIT'', updatedAt = ascii ''2024-01-01T00:00:01Z''\<rparr>]\<rparr>])"
proof -
  let ?F = "[\<lparr>Kod = CStr (ascii ''A1''), Kolichestvo = CStr (ascii ''>10''), Tsena = CStr (ascii ''100.00'')\<rparr>]"
  let ?s = "\<lparr>objects = (\<lambda>a. [])(0 := [ascii ''A1'']), next_ref = 1\<rparr>"
  have a: "0 < next_ref ?s"
    by simp
  have q: "stock_level (CStr (ascii ''>10'')) = Inr 100"
    by (simp add: stock_level_text)
  have s1: "fst (on_copy (seller_create_stocks_at ?F) 0 ?s) = Inr [\<lparr>offer_id = ascii ''A1'', stock = 100\<rparr>]"
    by (simp add: on_copy_def list_copy_def seller_create_stocks_at_def seller_create_stocks_def q)
  have m1: "fst (on_copy (market_create_stocks_at ?F (ascii ''W'') (ascii ''2024-01-01T00:00:00Z'')) 0 ?s) =
     Inr [\<lparr>sku = ascii ''A1'', warehouseId = ascii ''W'',
           m_items = [\<lparr>m_count = 100, m_type = ascii ''FIT'', updatedAt = ascii ''2024-01-01T00:00:00Z''\<rparr>]\<rparr>]"
    by (simp add: on_copy_def list_copy_def market_create_stocks_at_def market_create_stocks_def q)
  have p1: "market_create_stocks ?F [ascii ''A1''] (ascii ''W'') (ascii ''2024-01-01T00:00:00Z'') =
     ([], Inr [\<lparr>sku = ascii ''A1'', warehouseId = ascii ''W'',
           m_items = [\<lparr>m_count = 100, m_type = ascii ''FIT'', updatedAt = ascii ''2024-01-01T00:00:00Z''\<rparr>]\<rparr>])"
    by (simp add: market_create_stocks_def q)
  from repeated_reconcile [OF a, where F = ?F and I = "[ascii ''A1'']" and warehouse_id = "ascii ''W''"
      and ?date1.0 = "ascii ''2024-01-01T00:00:00Z''" and ?date2.0 = "ascii ''2024-01-01T00:00:01Z''"]
  have "market_create_stocks ?F [ascii ''A1''] (ascii ''W'') (ascii ''2024-01-01T00:00:01Z'') =
         (case market_create_stocks ?F [ascii ''A1''] (ascii ''W'') (ascii ''2024-01-01T00:00:00Z'') of
            (I', r) \<Rightarrow> (I', map_sum (\<lambda>e. e) (map (restamp (ascii ''2024-01-01T00:00:01Z''))) r))"
    by (rule conjunct1 [OF conjunct2 [OF conjunct2]])
  then have p2: "market_create_stocks ?F [ascii ''A1''] (ascii ''W'') (ascii ''2024-01-01T00:00:01Z'') =
     ([], Inr [\<lparr>sku = ascii ''A1'', warehouseId = ascii ''W'',
           m_items = [\<lparr>m_count = 100, m_type = ascii ''FIT'', updatedAt = ascii ''2024-01-01T00:00:01Z''\<rparr>]\<rparr>])"
    by (simp add: p1 restamp_def)
  from a s1 m1 p2 show ?thesis
    by (intro conjI)
qed

text \<open>
  As first stated, every field included, the claim fails for two calls one second apart.
\<close>

theorem repeated_reconcile_counterexample:
  "market_create_stocks
     [\<lparr>Kod = CStr (ascii ''A1''), Kolichestvo = CStr (ascii ''>10''), Tsena = CStr (ascii ''100.00'')\<rparr>]
     [ascii ''A1''] (ascii ''W'') (ascii ''2024-01-01T00:00:00Z'')
   \<noteq> market_create_stocks
     [\<lparr>Kod = CStr (ascii ''A1''), Kolichestvo = CStr (ascii ''>10''), Tsena = CStr (ascii ''100.00'')\<rparr>]
     [ascii ''A1''] (ascii ''W'') (ascii ''2024-01-01T00:00:01Z'')"
  by (simp add: market_create_stocks_def stock_level_def ascii_def)

section \<open>Listing the catalogue\<close>

lemma seller_get_product_list_answers:
  "answers post (ProductList t c k) r \<Longrightarrow>
   seller_get_product_list post t c k sent = (sent @ [ProductList t c k], Inr (Some r))"
  by (auto simp: answers_def seller_get_product_list_def split: sum.splits)

lemma seller_pages_well_behaved:
  "ozon_serves post c k n ((t, ps) # rest) \<Longrightarrow>
   n = int (length acc) + int (length (concat (map snd ((t, ps) # rest)))) \<Longrightarrow>
   \<exists>m. 0 < m \<and> m \<le> length ((t, ps) # rest)
     \<and> seller_pages post c k t acc sent =
         Some (sent @ map (\<lambda>t. ProductList t c k) (take m (map fst ((t, ps) # rest))),
               Inr (acc @ concat (map snd ((t, ps) # rest))))
     \<and> concat (map snd (drop m ((t, ps) # rest))) = []"
proof (induction rest arbitrary: t ps acc sent)
  case Nil
  from Nil.prems(1) have a: "answers post (ProductList t c k) \<lparr>items = ps, total = n, last_id = []\<rparr>"
    by simp
  have "seller_pages post c k t acc sent = Some (sent @ [ProductList t c k], Inr (acc @ ps))"
    using Nil.prems(2)
    by (subst seller_pages.simps) (simp add: seller_get_product_list_answers [OF a])
  then show ?case
    by (intro exI [of _ 1]) simp
next
  case (Cons p rest)
  obtain t' ps' where p: "p = (t', ps')"
    by (cases p)
  from Cons.prems(1) have a: "answers post (ProductList t c k) \<lparr>items = ps, total = n, last_id = t'\<rparr>"
    and s: "ozon_serves post c k n ((t', ps') # rest)"
    by (simp_all add: p)
  show ?case
  proof (cases "n = int (length (acc @ ps))")
    case True
    define X where "X = concat (map snd (p # rest))"
    have c: "concat (map snd ((t, ps) # p # rest)) = ps @ X"
      by (simp add: X_def)
    from Cons.prems(2) True have "length X = 0"
      unfolding c by simp
    then have e: "concat (map snd (p # rest)) = []"
      by (simp add: X_def)
    have "seller_pages post c k t acc sent = Some (sent @ [ProductList t c k], Inr (acc @ ps))"
      using True
      by (subst seller_pages.simps) (simp add: seller_get_product_list_answers [OF a])
    with e show ?thesis
      by (intro exI [of _ 1]) simp
  next
    case False
    have n: "n = int (length (acc @ ps)) + int (length (concat (map snd ((t', ps') # rest))))"
      using Cons.prems(2) by (simp add: p)
    from Cons.IH [OF s n, of "sent @ [ProductList t c k]"] obtain m where
      m: "0 < m" "m \<le> length ((t', ps') # rest)" and
      r: "seller_pages post c k t' (acc @ ps) (sent @ [ProductList t c k]) =
          Some ((sent @ [ProductList t c k]) @
                  map (\<lambda>t. ProductList t c k) (take m (map fst ((t', ps') # rest))),
                Inr ((acc @ ps) @ concat (map snd ((t', ps') # rest))))" and
      d: "concat (map snd (drop m ((t', ps') # rest))) = []"
      by blast
    have "seller_pages post c k t acc sent =
          seller_pages post c k t' (acc @ ps) (sent @ [ProductList t c k])"
      using False
      by (subst seller_pages.simps) (simp add: seller_get_product_list_answers [OF a])
    with r m d show ?thesis
      by (intro exI [of _ "Suc m"]) (simp add: p)
  qed
qed

lemma market_get_product_list_answers:
  "answers get (OfferMappingEntries t c k) r \<Longrightarrow>
   market_get_product_list get t c k sent = (sent @ [OfferMappingEntries t c k], Inr (Some r))"
  by (auto simp: answers_def market_get_product_list_def split: sum.splits)

lemma market_pages_well_behaved:
  "market_serves get c k final ((t, es) # rest) \<Longrightarrow>
   final = None \<or> final = Some [] \<Longrightarrow>
   [] \<notin> set (map fst rest) \<Longrightarrow>
   market_pages get c k t acc sent =
     Some (sent @ map (\<lambda>t. OfferMappingEntries t c k) (map fst ((t, es) # rest)),
           Inr (acc @ concat (map snd ((t, es) # rest))))"
proof (induction rest arbitrary: t es acc sent)
  case Nil
  from Nil.prems(1)
  have a: "answers get (OfferMappingEntries t c k)
             \<lparr>offerMappingEntries = es, paging = \<lparr>nextPageToken = final\<rparr>\<rparr>"
    by simp
  from Nil.prems(2) show ?case
    by (subst market_pages.simps) (auto simp: market_get_product_list_answers [OF a])
next
  case (Cons p rest)
  obtain t' es' where p: "p = (t', es')"
    by (cases p)
  from Cons.prems(1)
  have a: "answers get (OfferMappingEntries t c k)
             \<lparr>offerMappingEntries = es, paging = \<lparr>nextPageToken = Some t'\<rparr>\<rparr>"
    and s: "market_serves get c k final ((t', es') # rest)"
    by (simp_all add: p)
  from Cons.prems(3) have ne: "t' \<noteq> []" and rest: "[] \<notin> set (map fst rest)"
    by (auto simp: p)
  have "market_pages get c k t acc sent =
        market_pages get c k t' (acc @ es) (sent @ [OfferMappingEntries t c k])"
    using ne
    by (subst market_pages.simps) (simp add: market_get_product_list_answers [OF a])
  also have "\<dots> = Some ((sent @ [OfferMappingEntries t c k]) @
                         map (\<lambda>t. OfferMappingEntries t c k) (map fst ((t', es') # rest)),
                       Inr ((acc @ es) @ concat (map snd ((t', es') # rest))))"
    by (rule Cons.IH [OF s Cons.prems(2) rest])
  finally show ?case
    by (simp add: p)
qed

lemma seller_pages_from_start:
  assumes "pages = (t, ps) # rest"
    and "ozon_serves post c k n pages"
    and "n = int (length acc) + int (length (concat (map snd pages)))"
  shows "\<exists>m. 0 < m \<and> m \<le> length pages
     \<and> seller_pages post c k t acc sent =
         Some (sent @ map (\<lambda>t. ProductList t c k) (take m (map fst pages)),
               Inr (acc @ concat (map snd pages)))
     \<and> concat (map snd (drop m pages)) = []"
  using assms(2,3) unfolding assms(1) by (rule seller_pages_well_behaved)

lemma market_pages_from_start:
  assumes "entries = (t, es) # rest"
    and "market_serves get c k final entries"
    and "final = None \<or> final = Some []"
    and "[] \<notin> set (map fst rest)"
  shows "market_pages get c k t acc sent =
     Some (sent @ map (\<lambda>t. OfferMappingEntries t c k) (map fst entries),
           Inr (acc @ concat (map snd entries)))"
  using assms(2,3,4) unfolding assms(1) by (rule market_pages_well_behaved)

lemma inj_ProductList: "inj (\<lambda>t. ProductList t c k)"
  by (simp add: inj_def)

lemma inj_OfferMappingEntries: "inj (\<lambda>t. OfferMappingEntries t c k)"
  by (simp add: inj_def)

text \<open>
  Claim C8. Against a marketplace that behaves well, \<open>get_offer_ids\<close> of both modules
  returns. That of seller.py stops as soon as it holds \<open>total\<close> entries, which is on the
  last page at the latest; the pages it has not asked for are empty. That of market.py
  asks for every page and stops at the one whose token is missing or empty. Each asks for
  the pages in order, for none of them twice, and returns the identifiers of all pages in
  order, none dropped and none repeated.
\<close>

theorem pagination_complete:
  "(well_behaved_ozon post client_id seller_token pages \<longrightarrow>
      (\<exists>m. 0 < m \<and> m \<le> length pages
         \<and> seller_get_offer_ids post client_id seller_token sent =
             Some (sent @ map (\<lambda>t. ProductList t client_id seller_token) (take m (map fst pages)),
                   Inr (map product_offer_id (concat (map snd pages))))
         \<and> concat (map snd (drop m pages)) = []
         \<and> distinct (map (\<lambda>t. ProductList t client_id seller_token) (take m (map fst pages)))))
   \<and> (well_behaved_market get campaign_id market_token final entries \<longrightarrow>
      market_get_offer_ids get campaign_id market_token sent' =
        Some (sent' @ map (\<lambda>t. OfferMappingEntries t campaign_id market_token) (map fst entries),
              Inr (map (\<lambda>product. shopSku (offer product)) (concat (map snd entries))))
      \<and> distinct (map (\<lambda>t. OfferMappingEntries t campaign_id market_token) (map fst entries)))"
proof (intro conjI impI)
  assume w: "well_behaved_ozon post client_id seller_token pages"
  then obtain t ps rest where pg: "pages = (t, ps) # rest"
    by (cases pages) (auto simp: well_behaved_ozon_def)
  from w have h: "fst (hd pages) = []" and d: "distinct (map fst pages)"
    and s: "ozon_serves post client_id seller_token (int (length (concat (map snd pages)))) pages"
    unfolding well_behaved_ozon_def by blast+
  from h have t: "t = []"
    by (simp add: pg)
  have n: "int (length (concat (map snd pages))) =
           int (length ([] :: product list)) + int (length (concat (map snd pages)))"
    by simp
  from seller_pages_from_start [OF pg s n, of sent] obtain m where
    m: "0 < m" "m \<le> length pages" and
    r: "seller_pages post client_id seller_token t [] sent =
        Some (sent @ map (\<lambda>t. ProductList t client_id seller_token) (take m (map fst pages)),
              Inr ([] @ concat (map snd pages)))" and
    e: "concat (map snd (drop m pages)) = []"
    by blast
  from d have "distinct (take m (map fst pages))"
    by (rule distinct_take)
  then have dd: "distinct (map (\<lambda>t. ProductList t client_id seller_token) (take m (map fst pages)))"
    by (simp add: distinct_map inj_on_def)
  from r have "seller_get_offer_ids post client_id seller_token sent =
             Some (sent @ map (\<lambda>t. ProductList t client_id seller_token) (take m (map fst pages)),
                   Inr (map product_offer_id (concat (map snd pages))))"
    by (simp add: seller_get_offer_ids_def t)
  with m e dd
  show "\<exists>m. 0 < m \<and> m \<le> length pages
         \<and> seller_get_offer_ids post client_id seller_token sent =
             Some (sent @ map (\<lambda>t. ProductList t client_id seller_token) (take m (map fst pages)),
                   Inr (map product_offer_id (concat (map snd pages))))
         \<and> concat (map snd (drop m pages)) = []
         \<and> distinct (map (\<lambda>t. ProductList t client_id seller_token) (take m (map fst pages)))"
    by blast
next
  assume w: "well_behaved_market get campaign_id market_token final entries"
  then obtain t es rest where pg: "entries = (t, es) # rest"
    by (cases entries) (auto simp: well_behaved_market_def)
  from w have h: "fst (hd entries) = []" and d: "distinct (map fst entries)"
    and f: "final = None \<or> final = Some []"
    and s: "market_serves get campaign_id market_token final entries"
    unfolding well_behaved_market_def by blast+
  from h have t: "t = []"
    by (simp add: pg)
  from d t have ne: "[] \<notin> set (map fst rest)"
    by (auto simp: pg)
  have r: "market_pages get campaign_id market_token t [] sent' =
        Some (sent' @ map (\<lambda>t. OfferMappingEntries t campaign_id market_token) (map fst entries),
              Inr ([] @ concat (map snd entries)))"
    by (rule market_pages_from_start [OF pg s f ne])
  then show "market_get_offer_ids get campaign_id market_token sent' =
        Some (sent' @ map (\<lambda>t. OfferMappingEntries t campaign_id market_token) (map fst entries),
              Inr (map (\<lambda>product. shopSku (offer product)) (concat (map snd entries))))"
    by (simp add: market_get_offer_ids_def t)
  from d show "distinct (map (\<lambda>t. OfferMappingEntries t campaign_id market_token) (map fst entries))"
    by (simp add: distinct_map inj_on_def)
qed

theorem pagination_complete_witness:
  "well_behaved_ozon
     (\<lambda>call.
        if call = ProductList [] (ascii ''id'') (ascii ''key'')
        then Inr \<lparr>status_code = 200,
                  json = Inr (Some \<lparr>items = [\<lparr>product_offer_id = ascii ''A1''\<rparr>, \<lparr>product_offer_id = ascii ''A2''\<rparr>], total = 3, last_id = ascii ''t1''\<rparr>)\<rparr>
        else if call = ProductList (ascii ''t1'') (ascii ''id'') (ascii ''key'')
        then Inr \<lparr>status_code = 200,
                  json = Inr (Some \<lparr>items = [\<lparr>product_offer_id = ascii ''A3''\<rparr>], total = 3, last_id = []\<rparr>)\<rparr>
        else Inl ConnectionError)
     (ascii ''id'') (ascii ''key'')
     [([], [\<lparr>product_offer_id = ascii ''A1''\<rparr>, \<lparr>product_offer_id = ascii ''A2''\<rparr>]), (ascii ''t1'', [\<lparr>product_offer_id = ascii ''A3''\<rparr>])]
   \<and> seller_get_offer_ids
     (\<lambda>call.
        if call = ProductList [] (ascii ''id'') (ascii ''key'')
        then Inr \<lparr>status_code = 200,
                  json = Inr (Some \<lparr>items = [\<lparr>product_offer_id = ascii ''A1''\<rparr>, \<lparr>product_offer_id = ascii ''A2''\<rparr>], total = 3, last_id = ascii ''t1''\<rparr>)\<rparr>
        else if call = ProductList (ascii ''t1'') (ascii ''id'') (ascii ''key'')
        then Inr \<lparr>status_code = 200,
                  json = Inr (Some \<lparr>items = [\<lparr>product_offer_id = ascii ''A3''\<rparr>], total = 3, last_id = []\<rparr>)\<rparr>
        else Inl ConnectionError)
     (ascii ''id'') (ascii ''key'') [] =
     Some ([ProductList [] (ascii ''id'') (ascii ''key''), ProductList (ascii ''t1'') (ascii ''id'') (ascii ''key'')],
           Inr [ascii ''A1'', ascii ''A2'', ascii ''A3''])
   \<and> well_behaved_market
     (\<lambda>call.
        if call = OfferMappingEntries [] (ascii ''id'') (ascii ''key'')
        then Inr \<lparr>status_code = 200,
                  json = Inr (Some \<lparr>offerMappingEntries = [\<lparr>offer = \<lparr>shopSku = ascii ''A1''\<rparr>\<rparr>],
                                    paging = \<lparr>nextPageToken = Some (ascii ''p2'')\<rparr>\<rparr>)\<rparr>
        else if call = OfferMappingEntries (ascii ''p2'') (ascii ''id'') (ascii ''key'')
        then Inr \<lparr>status_code = 200,
                  json = Inr (Some \<lparr>offerMappingEntries = [\<lparr>offer = \<lparr>shopSku = ascii ''A2''\<rparr>\<rparr>],
                                    paging = \<lparr>nextPageToken = None\<rparr>\<rparr>)\<rparr>
        else Inl ConnectionError)
     (ascii ''id'') (ascii ''key'') None
     [([], [\<lparr>offer = \<lparr>shopSku = ascii ''A1''\<rparr>\<rparr>]), (ascii ''p2'', [\<lparr>offer = \<lparr>shopSku = ascii ''A2''\<rparr>\<rparr>])]
   \<and> market_get_offer_ids
     (\<lambda>call.
        if call = OfferMappingEntries [] (ascii ''id'') (ascii ''key'')
        then Inr \<lparr>status_code = 200,
                  json = Inr (Some \<lparr>offerMappingEntries = [\<lparr>offer = \<lparr>shopSku = ascii ''A1''\<rparr>\<rparr>],
                                    paging = \<lparr>nextPageToken = Some (ascii ''p2'')\<rparr>\<rparr>)\<rparr>
        else if call = OfferMappingEntries (ascii ''p2'') (ascii ''id'') (ascii ''key'')
        then Inr \<lparr>status_code = 200,
                  json = Inr (Some \<lparr>offerMappingEntries = [\<lparr>offer = \<lparr>shopSku = ascii ''A2''\<rparr>\<rparr>],
                                    paging = \<lparr>nextPageToken = None\<rparr>\<rparr>)\<rparr>
        else Inl ConnectionError)
     (ascii ''id'') (ascii ''key'') [] =
     Some ([OfferMappingEntries [] (ascii ''id'') (ascii ''key''), OfferMappingEntries (ascii ''p2'') (ascii ''id'') (ascii ''key'')],
           Inr [ascii ''A1'', ascii ''A2''])"
proof -
  define post :: seller_server where "post =
     (\<lambda>call.
        if call = ProductList [] (ascii ''id'') (ascii ''key'')
        then Inr \<lparr>status_code = 200,
                  json = Inr (Some \<lparr>items = [\<lparr>product_offer_id = ascii ''A1''\<rparr>, \<lparr>product_offer_id = ascii ''A2''\<rparr>], total = 3, last_id = ascii ''t1''\<rparr>)\<rparr>
        else if call = ProductList (ascii ''t1'') (ascii ''id'') (ascii ''key'')
        then Inr \<lparr>status_code = 200,
                  json = Inr (Some \<lparr>items = [\<lparr>product_offer_id = ascii ''A3''\<rparr>], total = 3, last_id = []\<rparr>)\<rparr>
        else Inl ConnectionError)"
  define get :: market_server where "get =
     (\<lambda>call.
        if call = OfferMappingEntries [] (ascii ''id'') (ascii ''key'')
        then Inr \<lparr>status_code = 200,
                  json = Inr (Some \<lparr>offerMappingEntries = [\<lparr>offer = \<lparr>shopSku = ascii ''A1''\<rparr>\<rparr>],
                                    paging = \<lparr>nextPageToken = Some (ascii ''p2'')\<rparr>\<rparr>)\<rparr>
        else if call = OfferMappingEntries (ascii ''p2'') (ascii ''id'') (ascii ''key'')
        then Inr \<lparr>status_code = 200,
                  json = Inr (Some \<lparr>offerMappingEntries = [\<lparr>offer = \<lparr>shopSku = ascii ''A2''\<rparr>\<rparr>],
                                    paging = \<lparr>nextPageToken = None\<rparr>\<rparr>)\<rparr>
        else Inl ConnectionError)"
  define pages where "pages = [([], [\<lparr>product_offer_id = ascii ''A1''\<rparr>, \<lparr>product_offer_id = ascii ''A2''\<rparr>]), (ascii ''t1'', [\<lparr>product_offer_id = ascii ''A3''\<rparr>])]"
  define entries where "entries = [([], [\<lparr>offer = \<lparr>shopSku = ascii ''A1''\<rparr>\<rparr>]), (ascii ''p2'', [\<lparr>offer = \<lparr>shopSku = ascii ''A2''\<rparr>\<rparr>])]"
  have wo: "well_behaved_ozon post (ascii ''id'') (ascii ''key'') pages"
    by (simp add: well_behaved_ozon_def pages_def post_def answers_def raise_for_status_def ascii_def)
  have wm: "well_behaved_market get (ascii ''id'') (ascii ''key'') None entries"
    by (simp add: well_behaved_market_def entries_def get_def answers_def raise_for_status_def ascii_def)
  from pagination_complete [where post = post and client_id = "(ascii ''id'')" and seller_token = "(ascii ''key'')"
      and pages = pages and sent = "[]" and get = get and campaign_id = "(ascii ''id'')"
      and market_token = "(ascii ''key'')" and final = None and entries = entries and sent' = "[]"] wo wm
  obtain m where m: "0 < m" "m \<le> length pages"
    and r: "seller_get_offer_ids post (ascii ''id'') (ascii ''key'') [] =
             Some ([] @ map (\<lambda>t. ProductList t (ascii ''id'') (ascii ''key'')) (take m (map fst pages)),
                   Inr (map product_offer_id (concat (map snd pages))))"
    and e: "concat (map snd (drop m pages)) = []"
    and g: "market_get_offer_ids get (ascii ''id'') (ascii ''key'') [] =
        Some ([] @ map (\<lambda>t. OfferMappingEntries t (ascii ''id'') (ascii ''key'')) (map fst entries),
              Inr (map (\<lambda>product. shopSku (offer product)) (concat (map snd entries))))"
    by blast
  have "m = 2"
  proof (rule ccontr)
    assume "m \<noteq> 2"
    with m have "m = 1"
      by (simp add: pages_def)
    with e show False
      by (simp add: pages_def)
  qed
  with r have r2: "seller_get_offer_ids post (ascii ''id'') (ascii ''key'') [] =
     Some ([ProductList [] (ascii ''id'') (ascii ''key''), ProductList (ascii ''t1'') (ascii ''id'') (ascii ''key'')],
           Inr [ascii ''A1'', ascii ''A2'', ascii ''A3''])"
    by (simp add: pages_def)
  from g have g2: "market_get_offer_ids get (ascii ''id'') (ascii ''key'') [] =
     Some ([OfferMappingEntries [] (ascii ''id'') (ascii ''key''), OfferMappingEntries (ascii ''p2'') (ascii ''id'') (ascii ''key'')],
           Inr [ascii ''A1'', ascii ''A2''])"
    by (simp add: entries_def)
  from wo r2 wm g2 show ?thesis
    unfolding post_def get_def pages_def entries_def by (intro conjI)
qed

section \<open>Failure of the listing\<close>










end
